theory Spec2Isabelle
  imports Complex_Main "HOL-Library.Sublist" "HOL-Library.Log_Nat"
begin

section \<open>Configuration\<close>

text \<open>
  The frozen \<^verbatim>\<open>CONFIG\<close> object of \<^verbatim>\<open>heatmap.js\<close>, restricted to the entries that the
  session ledger, the geometry, the validation and the merge read. The functions below
  take the configuration as an argument; \<open>CONFIG\<close> is the object the file ships.
  The numbers of the configuration are the rationals they hold exactly, stack bounds
  and counts are naturals; the arithmetic of doubles is modelled with the geometry.
\<close>

record AppConfig =
  debug_enabled :: bool
  debug_assertionsEnabled :: bool
  grid_size :: rat
  grid_canvasSize :: rat
  grid_innerSquareSize :: rat
  validation_minRotation :: rat
  validation_maxRotation :: rat
  validation_validModes :: "string list"
  validation_maxPointCount :: nat
  validation_maxUndoStackSize :: nat
  validation_autoTrimUndoStack :: bool

definition CONFIG :: AppConfig where
  "CONFIG = \<lparr> debug_enabled = False,
              debug_assertionsEnabled = True,
              grid_size = 15,
              grid_canvasSize = 600,
              grid_innerSquareSize = 9,
              validation_minRotation = 1,
              validation_maxRotation = 6,
              validation_validModes = [''simpleHeatmap'', ''heatmapCharting''],
              validation_maxPointCount = 10000,
              validation_maxUndoStackSize = 1000,
              validation_autoTrimUndoStack = True \<rparr>"

section \<open>Errors and assertions\<close>

text \<open>
  Everything the modelled code throws or rejects with. The validation errors carry the
  point index of the message \<^verbatim>\<open>Invalid session file: point ${index} ...\<close>; the
  other \<^verbatim>\<open>Invalid session file: ...\<close> messages are one constructor each.
\<close>

datatype error =
    AssertionFailed string
  | ReferenceError string
  | NotAnObject
  | InvalidName
  | InvalidMode
  | PointsNotArray
  | PointNotObject nat
  | PointMissingCoordinates nat
  | PointInvalidRotation nat
  | UndoStackNotArray
  | RedoStackNotArray
  | InvalidJSON
  | ReadError

text \<open>
  \<^verbatim>\<open>function assert(condition, message)\<close>: throws only when both debug switches are on
  and the condition is false.
\<close>

definition assert :: "AppConfig \<Rightarrow> bool \<Rightarrow> string \<Rightarrow> error + unit" where
  "assert cfg condition message =
     (if debug_enabled cfg \<and> debug_assertionsEnabled cfg \<and> \<not> condition
      then Inl (AssertionFailed (''Assertion failed: '' @ message))
      else Inr ())"

section \<open>Points, actions and the session state\<close>

text \<open>
  A point as the \<^verbatim>\<open>@typedef Point\<close> describes it. \<open>rotation\<close> is \<open>None\<close> when the
  field holds \<^verbatim>\<open>null\<close> (rotation tracking off), \<open>line\<close> is \<open>None\<close> when the point has no
  line. For \<open>jerseyNumber\<close> and \<open>team\<close> the migration asks \<^verbatim>\<open>hasOwnProperty\<close>, so
  the model keeps a missing property (\<open>Absent\<close>) apart from a property holding
  \<^verbatim>\<open>null\<close> (\<open>Null\<close>).
\<close>

record Line =
  startX :: rat
  startY :: rat
  endX :: rat
  endY :: rat

datatype 'a field = Absent | Null | Val 'a

record Point =
  pt_x :: rat
  pt_y :: rat
  rotation :: "rat option"
  line :: "Line option"
  jerseyNumber :: "string field"
  team :: "string field"

text \<open>
  An action is \<^verbatim>\<open>{action: 'add', point}\<close> or \<^verbatim>\<open>{action: 'clear', points}\<close>.
\<close>

datatype Action = Add Point | Clear "Point list"

text \<open>
  \<^verbatim>\<open>class SessionState\<close>. The arrays are lists whose last element is the most recently
  pushed one, as \<^verbatim>\<open>push\<close> and \<^verbatim>\<open>pop\<close> work at the end of a JavaScript array.
\<close>

record SessionState =
  name :: string
  mode :: string
  points :: "Point list"
  undoStack :: "Action list"
  redoStack :: "Action list"
  isViewOnly :: bool
  migrationInfo :: "string option"

definition newSessionState :: SessionState where
  "newSessionState = \<lparr> name = '''', mode = ''simpleHeatmap'', points = [],
                        undoStack = [], redoStack = [], isViewOnly = False,
                        migrationInfo = None \<rparr>"

subsection \<open>Trimming\<close>

text \<open>
  \<^verbatim>\<open>array.slice(-n)\<close> for a positive \<open>n\<close>: the last \<open>n\<close> elements, the whole array when
  it is shorter.
\<close>

definition slice_last :: "nat \<Rightarrow> 'a list \<Rightarrow> 'a list" where
  "slice_last n xs = drop (length xs - n) xs"

definition trimUndoStack :: "AppConfig \<Rightarrow> SessionState \<Rightarrow> SessionState" where
  "trimUndoStack cfg s =
     (let maxSize = validation_maxUndoStackSize cfg;
          autoTrim = validation_autoTrimUndoStack cfg
      in if autoTrim \<and> maxSize > 0 \<and> length (undoStack s) > maxSize
         then s\<lparr>undoStack := slice_last maxSize (undoStack s)\<rparr>
         else s)"

definition trimRedoStack :: "AppConfig \<Rightarrow> SessionState \<Rightarrow> SessionState" where
  "trimRedoStack cfg s =
     (let maxSize = validation_maxUndoStackSize cfg;
          autoTrim = validation_autoTrimUndoStack cfg
      in if autoTrim \<and> maxSize > 0 \<and> length (redoStack s) > maxSize
         then s\<lparr>redoStack := slice_last maxSize (redoStack s)\<rparr>
         else s)"

subsection \<open>Ledger operations\<close>

text \<open>
  \<^verbatim>\<open>addPoint(point)\<close>: three assertions, then push to \<open>points\<close> and \<open>undoStack\<close>,
  trim, and empty \<open>redoStack\<close>. On a typed point the first two assertions
  (\<^verbatim>\<open>point && typeof point === 'object'\<close>, numeric \<^verbatim>\<open>x\<close> and \<^verbatim>\<open>y\<close>) have a true
  condition; the third (\<^verbatim>\<open>typeof point.rotation === 'number'\<close>) is false for a
  \<^verbatim>\<open>null\<close> rotation. A thrown assertion leaves the state as it was.
\<close>

definition addPoint :: "AppConfig \<Rightarrow> Point \<Rightarrow> SessionState \<Rightarrow> error + SessionState" where
  "addPoint cfg point s =
     (case assert cfg True ''Point must be an object'' of
        Inl e \<Rightarrow> Inl e
      | Inr _ \<Rightarrow>
     (case assert cfg True ''Point must have numeric x/y'' of
        Inl e \<Rightarrow> Inl e
      | Inr _ \<Rightarrow>
     (case assert cfg (rotation point \<noteq> None) ''Point must have rotation'' of
        Inl e \<Rightarrow> Inl e
      | Inr _ \<Rightarrow>
          (let s1 = s\<lparr>points := points s @ [point]\<rparr>;
               s2 = s1\<lparr>undoStack := undoStack s1 @ [Add point]\<rparr>;
               s3 = trimUndoStack cfg s2
           in Inr (s3\<lparr>redoStack := []\<rparr>)))))"

text \<open>\<^verbatim>\<open>removeLastPoint()\<close>: \<^verbatim>\<open>this.points.pop() || null\<close>.\<close>

definition removeLastPoint :: "SessionState \<Rightarrow> Point option \<times> SessionState" where
  "removeLastPoint s =
     (if points s = [] then (None, s)
      else (Some (last (points s)), s\<lparr>points := butlast (points s)\<rparr>))"

definition clearAllPoints :: "AppConfig \<Rightarrow> SessionState \<Rightarrow> SessionState" where
  "clearAllPoints cfg s =
     (let s3 = (if length (points s) > 0
                then (let s1 = s\<lparr>undoStack := undoStack s @ [Clear (points s)]\<rparr>;
                          s2 = trimUndoStack cfg s1
                      in s2\<lparr>redoStack := []\<rparr>)
                else s)
      in s3\<lparr>points := []\<rparr>)"

text \<open>
  \<^verbatim>\<open>undo()\<close> and \<^verbatim>\<open>redo()\<close> return the boolean together with the new state.
  \<^verbatim>\<open>this.points.pop()\<close> on an empty array leaves it empty, as \<open>butlast\<close> does.
\<close>

definition undo :: "AppConfig \<Rightarrow> SessionState \<Rightarrow> bool \<times> SessionState" where
  "undo cfg s =
     (if length (undoStack s) = 0 then (False, s)
      else
        (let action = last (undoStack s);
             s1 = s\<lparr>undoStack := butlast (undoStack s)\<rparr>;
             s2 = s1\<lparr>redoStack := redoStack s1 @ [action]\<rparr>;
             s3 = trimRedoStack cfg s2;
             s4 = (case action of
                     Add p \<Rightarrow> s3\<lparr>points := butlast (points s3)\<rparr>
                   | Clear ps \<Rightarrow> s3\<lparr>points := ps\<rparr>)
         in (True, s4)))"

definition redo :: "AppConfig \<Rightarrow> SessionState \<Rightarrow> bool \<times> SessionState" where
  "redo cfg s =
     (if length (redoStack s) = 0 then (False, s)
      else
        (let action = last (redoStack s);
             s1 = s\<lparr>redoStack := butlast (redoStack s)\<rparr>;
             s2 = s1\<lparr>undoStack := undoStack s1 @ [action]\<rparr>;
             s3 = trimUndoStack cfg s2;
             s4 = (case action of
                     Add p \<Rightarrow> s3\<lparr>points := points s3 @ [p]\<rparr>
                   | Clear ps \<Rightarrow> s3\<lparr>points := []\<rparr>)
         in (True, s4)))"

definition canUndo :: "SessionState \<Rightarrow> bool" where
  "canUndo s = (length (undoStack s) > 0)"

definition canRedo :: "SessionState \<Rightarrow> bool" where
  "canRedo s = (length (redoStack s) > 0)"

text \<open>\<open>N\<close> consecutive \<^verbatim>\<open>addPoint\<close> calls; the first thrown assertion ends the run.\<close>

fun addPoints :: "AppConfig \<Rightarrow> Point list \<Rightarrow> SessionState \<Rightarrow> error + SessionState" where
  "addPoints cfg [] s = Inr s"
| "addPoints cfg (p # ps) s =
     (case addPoint cfg p s of Inl e \<Rightarrow> Inl e | Inr s' \<Rightarrow> addPoints cfg ps s')"

subsection \<open>Predicates on ledger states\<close>

text \<open>
  The guard shared by \<^verbatim>\<open>trimUndoStack\<close> and \<^verbatim>\<open>trimRedoStack\<close>: a stack of length \<open>n\<close>
  is cut exactly when this holds.
\<close>

definition exceedsBound :: "AppConfig \<Rightarrow> nat \<Rightarrow> bool" where
  "exceedsBound cfg n =
     (validation_autoTrimUndoStack cfg \<and> validation_maxUndoStackSize cfg > 0
        \<and> n > validation_maxUndoStackSize cfg)"

text \<open>
  The newest undo entry agrees with \<open>points\<close>: an \<open>Add\<close> of the last point, or a
  \<open>Clear\<close> over an empty point sequence.
\<close>

definition topConsistent :: "SessionState \<Rightarrow> bool" where
  "topConsistent s =
     (case last (undoStack s) of
        Add p \<Rightarrow> points s \<noteq> [] \<and> last (points s) = p
      | Clear ps \<Rightarrow> points s = [])"

text \<open>
  Replaying actions forward from a point sequence: an \<open>Add\<close> appends its point, a
  \<open>Clear\<close> empties the points and is only possible when its snapshot is the current
  sequence. The ledger invariant: the undo stack replays from some earlier point sequence
  to the current points, and the redo stack, newest entry first, can be replayed from the
  current points. \<open>reachable\<close> are the states that the four ledger operations produce
  from a session without points and history (a new or a reset one).
\<close>

fun replay :: "Point list \<Rightarrow> Action list \<Rightarrow> Point list option" where
  "replay pts [] = Some pts"
| "replay pts (Add p # as) = replay (pts @ [p]) as"
| "replay pts (Clear ps # as) = (if ps = pts then replay [] as else None)"

definition ledgerInvariant :: "SessionState \<Rightarrow> bool" where
  "ledgerInvariant s =
     ((\<exists>base. replay base (undoStack s) = Some (points s))
      \<and> replay (points s) (rev (redoStack s)) \<noteq> None)"

inductive reachable :: "AppConfig \<Rightarrow> SessionState \<Rightarrow> bool" for cfg where
  reach_new: "points s = [] \<Longrightarrow> undoStack s = [] \<Longrightarrow> redoStack s = [] \<Longrightarrow> reachable cfg s"
| reach_addPoint: "reachable cfg s \<Longrightarrow> addPoint cfg p s = Inr s' \<Longrightarrow> reachable cfg s'"
| reach_clearAllPoints: "reachable cfg s \<Longrightarrow> reachable cfg (clearAllPoints cfg s)"
| reach_undo: "reachable cfg s \<Longrightarrow> reachable cfg (snd (undo cfg s))"
| reach_redo: "reachable cfg s \<Longrightarrow> reachable cfg (snd (redo cfg s))"

text \<open>The three assertions of \<^verbatim>\<open>addPoint\<close> do not throw for this point.\<close>

definition addPointAssertionsHold :: "AppConfig \<Rightarrow> Point \<Rightarrow> bool" where
  "addPointAssertionsHold cfg p =
     (\<not> (debug_enabled cfg \<and> debug_assertionsEnabled cfg) \<or> rotation p \<noteq> None)"

text \<open>
  The object literal \<^verbatim>\<open>{ x, y, rotation: rotationValue }\<close> that \<^verbatim>\<open>handleCanvasClick\<close>
  passes to \<^verbatim>\<open>addPoint\<close>, and the charted point of \<^verbatim>\<open>handleCanvasMouseUp\<close> as files
  written before jersey and team tracking hold it (a line, no further property).
\<close>

definition simplePoint :: "rat \<Rightarrow> rat \<Rightarrow> rat option \<Rightarrow> Point" where
  "simplePoint a b r =
     \<lparr> pt_x = a, pt_y = b, rotation = r, line = None, jerseyNumber = Absent, team = Absent \<rparr>"

definition legacyLinePoint :: "rat \<Rightarrow> rat \<Rightarrow> Point" where
  "legacyLinePoint a b =
     \<lparr> pt_x = a, pt_y = b, rotation = Some 1,
       line = Some \<lparr> startX = 0, startY = 0, endX = a, endY = b \<rparr>,
       jerseyNumber = Absent, team = Absent \<rparr>"

text \<open>
  A configuration with the bound 2, one with debugging on, and four sample states: one
  point added to a new session; the same after \<^verbatim>\<open>removeLastPoint()\<close>; a session with
  two entries on each stack; and an emptied session that still has history.
\<close>

definition smallConfig :: AppConfig where
  "smallConfig = CONFIG\<lparr>validation_maxUndoStackSize := 2\<rparr>"

definition debugConfig :: AppConfig where
  "debugConfig = CONFIG\<lparr>debug_enabled := True\<rparr>"

definition onePointState :: SessionState where
  "onePointState = newSessionState\<lparr>points := [simplePoint 300 300 (Some 3)],
                                   undoStack := [Add (simplePoint 300 300 (Some 3))]\<rparr>"

definition orphanUndoState :: SessionState where
  "orphanUndoState = newSessionState\<lparr>undoStack := [Add (simplePoint 300 300 (Some 3))]\<rparr>"

definition busyState :: SessionState where
  "busyState = newSessionState\<lparr>points := [simplePoint 1 1 None, simplePoint 2 2 None],
                               undoStack := [Add (simplePoint 1 1 None), Add (simplePoint 2 2 None)],
                               redoStack := [Add (simplePoint 3 3 None), Add (simplePoint 4 4 None)]\<rparr>"

definition idleState :: SessionState where
  "idleState = newSessionState\<lparr>undoStack := [Clear [simplePoint 1 1 None]],
                               redoStack := [Add (simplePoint 3 3 None)]\<rparr>"

section \<open>Geometry\<close>

text \<open>
  \<^verbatim>\<open>class GridGeometry\<close>: a configuration and a mode; every metric is a getter. The
  constructor asserts with the global configuration \<open>cfg\<close> and stores its own argument
  \<open>config\<close>.
\<close>

record GridGeometry =
  geo_config :: AppConfig
  geo_mode :: string

definition GridGeometry_new :: "AppConfig \<Rightarrow> AppConfig \<Rightarrow> string \<Rightarrow> error + GridGeometry" where
  "GridGeometry_new cfg config m =
     (case assert cfg True ''Config must be an object'' of
        Inl e \<Rightarrow> Inl e
      | Inr _ \<Rightarrow>
     (case assert cfg (m \<in> set (validation_validModes cfg)) (''Invalid mode: '' @ m) of
        Inl e \<Rightarrow> Inl e
      | Inr _ \<Rightarrow> Inr \<lparr> geo_config = config, geo_mode = m \<rparr>))"

subsection \<open>JavaScript numbers\<close>

text \<open>
  A JavaScript number is an IEEE 754 double: a finite value (here the rational it holds
  exactly, \<open>Finite 0\<close> being \<open>+0\<close>), negative zero, an infinity, or \<^verbatim>\<open>NaN\<close>. The
  operations below are defined at every rational and round their result to a double,
  so at the values of doubles they are the operations of IEEE 754.
\<close>

datatype number = Finite rat | NegZero | PosInfinity | NegInfinity | NaN

definition signedInfinity :: "bool \<Rightarrow> number" where
  "signedInfinity negative = (if negative then NegInfinity else PosInfinity)"

definition signedZero :: "bool \<Rightarrow> number" where
  "signedZero negative = (if negative then NegZero else Finite 0)"

fun isInfinite :: "number \<Rightarrow> bool" where
  "isInfinite PosInfinity = True"
| "isInfinite NegInfinity = True"
| "isInfinite _ = False"

fun isZero :: "number \<Rightarrow> bool" where
  "isZero (Finite r) = (r = 0)"
| "isZero NegZero = True"
| "isZero _ = False"

fun isFiniteNumber :: "number \<Rightarrow> bool" where
  "isFiniteNumber (Finite r) = True"
| "isFiniteNumber NegZero = True"
| "isFiniteNumber _ = False"

fun signBit :: "number \<Rightarrow> bool" where
  "signBit (Finite r) = (r < 0)"
| "signBit NegZero = True"
| "signBit NegInfinity = True"
| "signBit _ = False"

text \<open>The mathematical value of a finite number; both zeros have the value 0.\<close>

fun mathValue :: "number \<Rightarrow> rat" where
  "mathValue (Finite r) = r"
| "mathValue _ = 0"

text \<open>
  Rounding a positive rational \<open>a\<close> to the nearest double, ties to the even significand.
  \<open>floorLog2 a\<close> is the binary exponent \<open>e\<close> with \<open>2^e \<le> a < 2^(e+1)\<close>, found from the
  bit lengths of numerator and denominator. Doubles with exponent \<open>e\<close> are the multiples
  of \<open>quantum e = 2^(e - 52)\<close>, and below \<open>2^-1022\<close> (the subnormal range) the multiples of
  \<open>2^-1074\<close>. The result overflows to an infinity when the exponent exceeds 1023 or the
  significand rounds up to \<open>2^53\<close> at exponent 1023, and underflows to a zero of the
  same sign when the significand rounds to 0.
\<close>

definition lowerLog2 :: "rat \<Rightarrow> int \<Rightarrow> int" where
  "lowerLog2 a d = (if 2 powi d \<le> a then d else d - 1)"

definition floorLog2 :: "rat \<Rightarrow> int" where
  "floorLog2 a =
     lowerLog2 a (bitlen (fst (quotient_of a)) - bitlen (snd (quotient_of a)))"

definition tieToEven :: "rat \<Rightarrow> int \<Rightarrow> int" where
  "tieToEven t f =
     (if t - of_int f < 1 / 2 then f
      else if t - of_int f > 1 / 2 then f + 1
      else if even f then f else f + 1)"

definition roundHalfEven :: "rat \<Rightarrow> int" where
  "roundHalfEven t = tieToEven t \<lfloor>t\<rfloor>"

definition quantum :: "int \<Rightarrow> rat" where
  "quantum e = 2 powi (max e (- 1022) - 52)"

definition packNumber :: "bool \<Rightarrow> int \<Rightarrow> int \<Rightarrow> number" where
  "packNumber negative e n =
     (if e \<ge> 1024 \<or> (e = 1023 \<and> n \<ge> 2 ^ 53) then signedInfinity negative
      else if n = 0 then signedZero negative
      else Finite ((if negative then - 1 else 1) * (of_int n * quantum e)))"

definition roundWithExponent :: "bool \<Rightarrow> rat \<Rightarrow> int \<Rightarrow> number" where
  "roundWithExponent negative a e = packNumber negative e (roundHalfEven (a / quantum e))"

text \<open>The number for a real value: the result of every arithmetic operation is rounded so.\<close>

definition roundNumber :: "rat \<Rightarrow> number" where
  "roundNumber r =
     (if r = 0 then Finite 0 else roundWithExponent (r < 0) \<bar>r\<bar> (floorLog2 \<bar>r\<bar>))"

text \<open>
  The operators \<^verbatim>\<open>/\<close> and \<^verbatim>\<open>-\<close> on numbers, with the IEEE 754 cases for \<^verbatim>\<open>NaN\<close>,
  infinities and signed zeros, and the rounded exact result otherwise.
\<close>

definition jsDiv :: "number \<Rightarrow> number \<Rightarrow> number" where
  "jsDiv a b =
     (if a = NaN \<or> b = NaN then NaN
      else if isInfinite a then
        (if isInfinite b then NaN else signedInfinity (signBit a \<noteq> signBit b))
      else if isInfinite b then signedZero (signBit a \<noteq> signBit b)
      else if isZero b then
        (if isZero a then NaN else signedInfinity (signBit a \<noteq> signBit b))
      else if isZero a then signedZero (signBit a \<noteq> signBit b)
      else roundNumber (mathValue a / mathValue b))"

definition jsSub :: "number \<Rightarrow> number \<Rightarrow> number" where
  "jsSub a b =
     (if a = NaN \<or> b = NaN then NaN
      else if isInfinite a then
        (if isInfinite b \<and> signBit a = signBit b then NaN else a)
      else if isInfinite b then signedInfinity (\<not> signBit b)
      else if isZero a \<and> isZero b then signedZero (signBit a \<and> \<not> signBit b)
      else roundNumber (mathValue a - mathValue b))"

subsection \<open>Rendering with two fraction digits\<close>

text \<open>The decimal digits of a non-negative integer.\<close>

definition digitChar :: "int \<Rightarrow> char" where
  "digitChar d = ''0123456789'' ! nat d"

function decimal :: "int \<Rightarrow> string" where
  "decimal n = (if n < 10 then [digitChar n] else decimal (n div 10) @ [digitChar (n mod 10)])"
  by pat_completeness auto
termination
  by (relation "measure nat") auto

declare decimal.simps [simp del]

text \<open>
  Fixed notation of \<^verbatim>\<open>toFixed(2)\<close>, for a value \<open>a\<close> with \<open>0 \<le> a < 10^21\<close>: the integer
  \<open>n\<close> for which \<open>n / 100\<close> is closest to \<open>a\<close>, the larger one of two, written with a
  point before its last two digits and with at least one digit before the point.
\<close>

definition roundedHundredths :: "rat \<Rightarrow> int" where
  "roundedHundredths a = \<lfloor>a * 100 + 1 / 2\<rfloor>"

definition fixedDigits2 :: "int \<Rightarrow> string" where
  "fixedDigits2 n =
     decimal (n div 100) @ ''.'' @ [digitChar (n div 10 mod 10), digitChar (n mod 10)]"

text \<open>
  From \<open>10^21\<close> on \<^verbatim>\<open>toFixed\<close> returns what \<^verbatim>\<open>String(x)\<close> returns, the exponent notation
  of \<^verbatim>\<open>Number::toString\<close>: the digits \<open>s\<close> of the shortest decimal \<open>s \<times> 10^(n - k)\<close>, with
  \<open>k\<close> digits, whose number is \<open>a\<close>; of several of that length the one closest to \<open>a\<close>,
  and of two equally close ones the even \<open>s\<close>. A candidate is the pair \<open>(s, n)\<close>. Only the
  two integers around \<open>a / 10^(n - k)\<close> can be closest, and \<open>n\<close> is the number \<open>d\<close> of
  digits of the integer part of \<open>a\<close> or \<open>d + 1\<close>. Seventeen digits determine every
  double, so a candidate is found for some \<open>k\<close> up to 17 whenever \<open>a\<close> is the value of a
  double.
\<close>

definition isCandidate :: "rat \<Rightarrow> nat \<Rightarrow> int \<times> nat \<Rightarrow> bool" where
  "isCandidate a k c =
     (10 ^ (k - 1) \<le> fst c \<and> fst c < 10 ^ k
        \<and> roundNumber (of_int (fst c) * 10 ^ (snd c - k)) = Finite a)"

definition nearCandidates :: "int \<Rightarrow> nat \<Rightarrow> (int \<times> nat) list" where
  "nearCandidates s n = [(s, n), (s + 1, n)]"

definition digitCandidates :: "rat \<Rightarrow> nat \<Rightarrow> nat \<Rightarrow> (int \<times> nat) list" where
  "digitCandidates a k n =
     filter (isCandidate a k) (nearCandidates \<lfloor>a / 10 ^ (n - k)\<rfloor> n)"

definition candidatesAround :: "rat \<Rightarrow> nat \<Rightarrow> nat \<Rightarrow> (int \<times> nat) list" where
  "candidatesAround a k d = digitCandidates a k d @ digitCandidates a k (d + 1)"

definition candidatesFor :: "rat \<Rightarrow> nat \<Rightarrow> (int \<times> nat) list" where
  "candidatesFor a k = candidatesAround a k (length (decimal \<lfloor>a\<rfloor>))"

definition distanceTo :: "rat \<Rightarrow> nat \<Rightarrow> int \<times> nat \<Rightarrow> rat" where
  "distanceTo a k c = \<bar>of_int (fst c) * 10 ^ (snd c - k) - a\<bar>"

definition preferSecond :: "rat \<Rightarrow> rat \<Rightarrow> int \<times> nat \<Rightarrow> int \<times> nat \<Rightarrow> bool" where
  "preferSecond d1 d2 c1 c2 = (d2 < d1 \<or> (d2 = d1 \<and> even (fst c2) \<and> odd (fst c1)))"

definition closer :: "rat \<Rightarrow> nat \<Rightarrow> (int \<times> nat) \<Rightarrow> (int \<times> nat) \<Rightarrow> (int \<times> nat)" where
  "closer a k c1 c2 =
     (if preferSecond (distanceTo a k c1) (distanceTo a k c2) c1 c2 then c2 else c1)"

definition bestCandidate :: "rat \<Rightarrow> nat \<Rightarrow> (int \<times> nat) list \<Rightarrow> int \<times> nat" where
  "bestCandidate a k cs = foldl (closer a k) (hd cs) (tl cs)"

fun shortestDigits :: "rat \<Rightarrow> nat list \<Rightarrow> (int \<times> nat) option" where
  "shortestDigits a [] = None"
| "shortestDigits a (k # ks) =
     (case candidatesFor a k of
        [] \<Rightarrow> shortestDigits a ks
      | c # cs \<Rightarrow> Some (bestCandidate a k (c # cs)))"

definition mantissaString :: "string \<Rightarrow> string" where
  "mantissaString ds = (if length ds = 1 then ds else [hd ds] @ ''.'' @ tl ds)"

definition exponentString :: "int \<times> nat \<Rightarrow> string" where
  "exponentString c = mantissaString (decimal (fst c)) @ ''e+'' @ decimal (int (snd c) - 1)"

definition largeNumberToString :: "rat \<Rightarrow> string" where
  "largeNumberToString a =
     (case shortestDigits a [1..<18] of
        None \<Rightarrow> decimal \<lfloor>a\<rfloor>
      | Some c \<Rightarrow> exponentString c)"

text \<open>
  \<^verbatim>\<open>Number.prototype.toFixed(2)\<close>: \<^verbatim>\<open>String(x)\<close> for a number that is not finite;
  otherwise the sign of the value (none for either zero) and the fixed or the exponent
  notation of its absolute value.
\<close>

definition fixedOrExponent :: "rat \<Rightarrow> string" where
  "fixedOrExponent a =
     (if a \<ge> 10 ^ 21 then largeNumberToString a else fixedDigits2 (roundedHundredths a))"

definition signedFixed :: "rat \<Rightarrow> string" where
  "signedFixed x = (if x < 0 then ''-'' else []) @ fixedOrExponent \<bar>x\<bar>"

definition toFixed2 :: "number \<Rightarrow> string" where
  "toFixed2 v =
     (if v = NaN then ''NaN''
      else if v = PosInfinity then ''Infinity''
      else if v = NegInfinity then ''-Infinity''
      else signedFixed (mathValue v))"

text \<open>
  Reading a string of the fixed notation back: an optional minus sign, digits, a point,
  digits. \<open>None\<close> for any other string.
\<close>

definition digitValue :: "char \<Rightarrow> int option" where
  "digitValue c = List.find (\<lambda>d. digitChar d = c) [0, 1, 2, 3, 4, 5, 6, 7, 8, 9]"

fun parseDigits :: "int \<Rightarrow> string \<Rightarrow> int option" where
  "parseDigits acc [] = Some acc"
| "parseDigits acc (c # cs) =
     (case digitValue c of None \<Rightarrow> None | Some d \<Rightarrow> parseDigits (acc * 10 + d) cs)"

definition unsignedDecimalValue :: "string \<Rightarrow> rat option" where
  "unsignedDecimalValue body =
     (case dropWhile (\<lambda>c. c \<noteq> CHR ''.'') body of
        [] \<Rightarrow> None
      | dot # fraction \<Rightarrow>
          (case (parseDigits 0 (takeWhile (\<lambda>c. c \<noteq> CHR ''.'') body), parseDigits 0 fraction) of
             (Some i, Some f) \<Rightarrow>
               if takeWhile (\<lambda>c. c \<noteq> CHR ''.'') body = [] \<or> fraction = [] then None
               else Some (of_int i + of_int f / 10 ^ length fraction)
           | _ \<Rightarrow> None))"

definition decimalValue :: "string \<Rightarrow> rat option" where
  "decimalValue s =
     (if s \<noteq> [] \<and> hd s = CHR ''-'' then map_option uminus (unsignedDecimalValue (tl s))
      else unsignedDecimalValue s)"

subsection \<open>Scale and pixels to meters\<close>

text \<open>
  The getter \<^verbatim>\<open>scale\<close> divides the canvas size by the grid size, both numbers of the
  configuration. \<^verbatim>\<open>pixelsToMeters(px, py)\<close> returns \<^verbatim>\<open>{x: string, y: string}\<close>; its
  arguments are numbers, the canvas coordinates its callers pass.
\<close>

definition scale :: "GridGeometry \<Rightarrow> number" where
  "scale g = jsDiv (Finite (grid_canvasSize (geo_config g))) (Finite (grid_size (geo_config g)))"

record Meters =
  meters_x :: string
  meters_y :: string

definition pixelsToMeters :: "GridGeometry \<Rightarrow> number \<Rightarrow> number \<Rightarrow> Meters" where
  "pixelsToMeters g px py =
     \<lparr> meters_x = toFixed2 (jsDiv px (scale g)),
       meters_y = toFixed2 (jsSub (jsDiv py (scale g)) (Finite 3)) \<rparr>"

text \<open>
  The geometry of the shipped configuration in either mode, and one whose canvas size
  is 0, so that its scale is 0.
\<close>

definition simpleGeometry :: GridGeometry where
  "simpleGeometry = \<lparr> geo_config = CONFIG, geo_mode = ''simpleHeatmap'' \<rparr>"

definition chartingGeometry :: GridGeometry where
  "chartingGeometry = \<lparr> geo_config = CONFIG, geo_mode = ''heatmapCharting'' \<rparr>"

definition zeroScaleGeometry :: GridGeometry where
  "zeroScaleGeometry = \<lparr> geo_config = CONFIG\<lparr>grid_canvasSize := 0\<rparr>,
                          geo_mode = ''simpleHeatmap'' \<rparr>"

section \<open>Loading and migrating a session\<close>

text \<open>
  The parsed document that \<^verbatim>\<open>load(data, viewOnly)\<close> and the merge read: a name, a
  mode, the points, and the two stacks, which a file may leave out. A document comes out
  of \<^verbatim>\<open>JSON.parse\<close>, so no object occurs at two places of it and the in-place updates
  of the migration are independent of each other.
\<close>

record SessionData =
  data_name :: string
  data_mode :: string
  data_points :: "Point list"
  data_undoStack :: "Action list option"
  data_redoStack :: "Action list option"

text \<open>
  The body of the two \<^verbatim>\<open>forEach\<close> callbacks: a point with a line and without an own
  property \<^verbatim>\<open>jerseyNumber\<close> gets \<^verbatim>\<open>jerseyNumber = null\<close> and counts once; the same
  for \<^verbatim>\<open>team\<close>. The result is the point and the two increments.
\<close>

definition migratePoint :: "Point \<Rightarrow> Point \<times> nat \<times> nat" where
  "migratePoint point =
     (let (p1, j) = (if line point \<noteq> None \<and> jerseyNumber point = Absent
                     then (point\<lparr>jerseyNumber := Null\<rparr>, 1) else (point, 0));
          (p2, t) = (if line p1 \<noteq> None \<and> team p1 = Absent
                     then (p1\<lparr>team := Null\<rparr>, 1) else (p1, 0))
      in (p2, j, t))"

fun migratePoints :: "Point list \<Rightarrow> Point list \<times> nat \<times> nat" where
  "migratePoints [] = ([], 0, 0)"
| "migratePoints (p # ps) =
     (let (p', j, t) = migratePoint p;
          (ps', js, ts) = migratePoints ps
      in (p' # ps', j + js, t + ts))"

text \<open>
  \<^verbatim>\<open>migrateStack(stack)\<close>: an add action migrates its point, a clear action every point
  of its snapshot; the result is the stack and \<^verbatim>\<open>{jersey, team}\<close>.
\<close>

fun migrateStack :: "Action list \<Rightarrow> Action list \<times> nat \<times> nat" where
  "migrateStack [] = ([], 0, 0)"
| "migrateStack (Add p # as) =
     (let (p', j, t) = migratePoint p;
          (as', js, ts) = migrateStack as
      in (Add p' # as', j + js, t + ts))"
| "migrateStack (Clear ps # as) =
     (let (ps', j, t) = migratePoints ps;
          (as', js, ts) = migrateStack as
      in (Clear ps' # as', j + js, t + ts))"

text \<open>
  The local counters of \<^verbatim>\<open>load\<close> after the statement
  \<^verbatim>\<open>teamMigrated += undoResults.team + redoResults.team;\<close>.
\<close>

record MigrationCounters =
  pointsMigrated :: nat
  teamMigrated :: nat
  undoResults_jersey :: nat
  undoResults_team :: nat
  redoResults_jersey :: nat
  redoResults_team :: nat
  currentJersey :: nat
  currentTeam :: nat

text \<open>
  The statements of \<^verbatim>\<open>load\<close> up to that point: name, mode and points are taken over,
  the points are migrated, the stacks are taken over (\<^verbatim>\<open>data.undoStack || []\<close>) and
  migrated, and the counters are summed. \<open>currentJersey\<close> and \<open>currentTeam\<close> record what
  the first loop alone counted.
\<close>

definition loadMigration :: "SessionData \<Rightarrow> SessionState \<Rightarrow> SessionState \<times> MigrationCounters" where
  "loadMigration data s =
     (let s1 = s\<lparr>name := (if data_name data = [] then ''Loaded Session'' else data_name data)\<rparr>;
          s2 = s1\<lparr>mode := data_mode data\<rparr>;
          (pts, pj, pt) = migratePoints (data_points data);
          s3 = s2\<lparr>points := pts\<rparr>;
          (us, uj, ut) = migrateStack (case data_undoStack data of None \<Rightarrow> [] | Some u \<Rightarrow> u);
          (rs, rj, rt) = migrateStack (case data_redoStack data of None \<Rightarrow> [] | Some r \<Rightarrow> r);
          s4 = s3\<lparr>undoStack := us, redoStack := rs\<rparr>
      in (s4, \<lparr> pointsMigrated = pj + (uj + rj), teamMigrated = pt + (ut + rt),
                 undoResults_jersey = uj, undoResults_team = ut,
                 redoResults_jersey = rj, redoResults_team = rt,
                 currentJersey = pj, currentTeam = pt \<rparr>))"

text \<open>
  \<^verbatim>\<open>load(data, viewOnly)\<close>. The next statement of the source is the expression
  \<^verbatim>\<open>ults.jersey;\<close>, and no \<^verbatim>\<open>ults\<close> is declared anywhere in the file (nor
  \<^verbatim>\<open>totalMigrated\<close>, which the lines after it read): evaluating the identifier throws
  a \<^verbatim>\<open>ReferenceError\<close>. So every call leaves \<^verbatim>\<open>load\<close> by that exception, with the
  state as the migration left it; the report (\<^verbatim>\<open>this.migrationInfo\<close>) and
  \<^verbatim>\<open>this.isViewOnly\<close> are never assigned.
\<close>

definition load :: "SessionData \<Rightarrow> bool \<Rightarrow> SessionState \<Rightarrow> (error + unit) \<times> SessionState" where
  "load data viewOnly s =
     (let (s4, counters) = loadMigration data s
      in (Inl (ReferenceError ''ults is not defined''), s4))"

text \<open>\<^verbatim>\<open>export()\<close>, without the version and the time stamp.\<close>

definition export :: "SessionState \<Rightarrow> SessionData" where
  "export s = \<lparr> data_name = name s, data_mode = mode s, data_points = points s,
                 data_undoStack = Some (undoStack s), data_redoStack = Some (redoStack s) \<rparr>"

definition legacyDocument :: SessionData where
  "legacyDocument =
     \<lparr> data_name = ''match 1'', data_mode = ''heatmapCharting'',
       data_points = [legacyLinePoint 10 20, simplePoint 5 5 None],
       data_undoStack = Some [Add (legacyLinePoint 10 20), Clear [legacyLinePoint 30 40]],
       data_redoStack = Some [Add (legacyLinePoint 50 60)] \<rparr>"

section \<open>Validating a document\<close>

text \<open>
  Validation runs on what \<^verbatim>\<open>JSON.parse\<close> returns, before anything is known about its
  shape, so its input is a JSON value. An object is the list of its properties; reading
  a property that is not there gives \<^verbatim>\<open>undefined\<close>, here \<open>None\<close>.
\<close>

datatype json =
    JNull
  | JBool bool
  | JNum rat
  | JStr string
  | JArr "json list"
  | JObj "(string \<times> json) list"

fun getProp :: "json \<Rightarrow> string \<Rightarrow> json option" where
  "getProp (JObj props) k = map_of props k"
| "getProp _ k = None"

text \<open>\<^verbatim>\<open>v && typeof v === 'object'\<close>: arrays and objects, not \<^verbatim>\<open>null\<close>.\<close>

fun isObjectValue :: "json \<Rightarrow> bool" where
  "isObjectValue (JArr _) = True"
| "isObjectValue (JObj _) = True"
| "isObjectValue _ = False"

fun truthy :: "json option \<Rightarrow> bool" where
  "truthy None = False"
| "truthy (Some JNull) = False"
| "truthy (Some (JBool b)) = b"
| "truthy (Some (JNum n)) = (n \<noteq> 0)"
| "truthy (Some (JStr s)) = (s \<noteq> [])"
| "truthy (Some (JArr _)) = True"
| "truthy (Some (JObj _)) = True"

text \<open>\<^verbatim>\<open>typeof v === 'number'\<close>, with the number.\<close>

fun numberOf :: "json option \<Rightarrow> rat option" where
  "numberOf (Some (JNum n)) = Some n"
| "numberOf _ = None"

text \<open>
  \<^verbatim>\<open>validatePoint(point, index)\<close>. The result \<open>Inr w\<close> says the point is accepted, and
  \<open>w\<close> whether the out-of-bounds warning was written to the console.
\<close>

definition validatePoint :: "AppConfig \<Rightarrow> json \<Rightarrow> nat \<Rightarrow> error + bool" where
  "validatePoint cfg point index =
     (if \<not> isObjectValue point then Inl (PointNotObject index)
      else
        (case (numberOf (getProp point ''x''), numberOf (getProp point ''y'')) of
           (Some px, Some py) \<Rightarrow>
             (let maxCanvasSize = grid_canvasSize cfg * 2;
                  warned = (px < 0 \<or> px > maxCanvasSize \<or> py < 0 \<or> py > maxCanvasSize);
                  minRotation = validation_minRotation cfg;
                  maxRotation = validation_maxRotation cfg
              in (case getProp point ''rotation'' of
                    None \<Rightarrow> Inr warned
                  | Some JNull \<Rightarrow> Inr warned
                  | Some (JNum r) \<Rightarrow>
                      (if r < minRotation \<or> r > maxRotation
                       then Inl (PointInvalidRotation index) else Inr warned)
                  | Some _ \<Rightarrow> Inl (PointInvalidRotation index)))
         | _ \<Rightarrow> Inl (PointMissingCoordinates index)))"

text \<open>\<^verbatim>\<open>data.points.forEach((point, i) => validatePoint(point, i))\<close>\<close>

fun validatePoints :: "AppConfig \<Rightarrow> json list \<Rightarrow> nat \<Rightarrow> error + unit" where
  "validatePoints cfg [] i = Inr ()"
| "validatePoints cfg (p # ps) i =
     (case validatePoint cfg p i of
        Inl e \<Rightarrow> Inl e
      | Inr _ \<Rightarrow> validatePoints cfg ps (Suc i))"

fun isArray :: "json option \<Rightarrow> bool" where
  "isArray (Some (JArr _)) = True"
| "isArray _ = False"

text \<open>
  \<^verbatim>\<open>validateSessionData(data)\<close>. The version is only logged, and
  \<^verbatim>\<open>checkVersionCompatibility\<close> returns true for every version.
\<close>

definition validateSessionData :: "AppConfig \<Rightarrow> json \<Rightarrow> error + unit" where
  "validateSessionData cfg data =
     (if \<not> isObjectValue data then Inl NotAnObject
      else if \<not> (case getProp data ''name'' of Some (JStr n) \<Rightarrow> n \<noteq> [] | _ \<Rightarrow> False)
        then Inl InvalidName
      else if \<not> (case getProp data ''mode'' of
                    Some (JStr m) \<Rightarrow> m \<noteq> [] \<and> m \<in> set (validation_validModes cfg)
                  | _ \<Rightarrow> False)
        then Inl InvalidMode
      else
        (case getProp data ''points'' of
           Some (JArr pts) \<Rightarrow>
             (case validatePoints cfg pts 0 of
                Inl e \<Rightarrow> Inl e
              | Inr _ \<Rightarrow>
                  if truthy (getProp data ''undoStack'') \<and> \<not> isArray (getProp data ''undoStack'')
                  then Inl UndoStackNotArray
                  else if truthy (getProp data ''redoStack'') \<and> \<not> isArray (getProp data ''redoStack'')
                  then Inl RedoStackNotArray
                  else Inr ())
         | _ \<Rightarrow> Inl PointsNotArray))"

text \<open>A rotation value that is there, is not \<^verbatim>\<open>null\<close>, and is no number in the range.\<close>

definition rotationOutOfRange :: "AppConfig \<Rightarrow> json \<Rightarrow> bool" where
  "rotationOutOfRange cfg point =
     (case getProp point ''rotation'' of
        None \<Rightarrow> False
      | Some JNull \<Rightarrow> False
      | Some (JNum r) \<Rightarrow> r < validation_minRotation cfg \<or> r > validation_maxRotation cfg
      | Some _ \<Rightarrow> True)"

definition jsonPoint :: "rat \<Rightarrow> rat \<Rightarrow> json \<Rightarrow> json" where
  "jsonPoint a b r = JObj [(''x'', JNum a), (''y'', JNum b), (''rotation'', r)]"

definition jsonDocument :: "json list \<Rightarrow> json" where
  "jsonDocument pts =
     JObj [(''version'', JStr ''1.1''), (''name'', JStr ''match 1''),
           (''mode'', JStr ''simpleHeatmap''), (''points'', JArr pts),
           (''undoStack'', JArr []), (''redoStack'', JArr [])]"

section \<open>The application: rotation selection and combining files\<close>

text \<open>
  A file of the combine list with the outcome of \<^verbatim>\<open>FileManager.loadFromFile\<close> on it:
  the validated document, or the error the promise rejects with.
\<close>

record CombineFile =
  file_name :: string
  file_load :: "error + SessionData"

record CombinedData =
  combined_mode :: string
  combined_points :: "Point list"
  combined_undoStack :: "Action list"
  combined_redoStack :: "Action list"

text \<open>
  The fields of \<^verbatim>\<open>class HeatmapApp\<close> that the two handlers read and write.
  \<open>combineMode\<close> and \<open>combinedData\<close> are \<^verbatim>\<open>null\<close> between two merges.
\<close>

record HeatmapApp =
  state :: SessionState
  trackRotation :: bool
  currentRotation :: int
  activeRotationFilters :: "int set"
  combineMode :: "string option"
  combineFileList :: "CombineFile list"
  combinedData :: "CombinedData option"

text \<open>
  \<^verbatim>\<open>handleRotationClick(event)\<close>. \<open>button\<close> is the \<^verbatim>\<open>data-rotation\<close> number of the
  rotation button that was clicked, \<open>None\<close> when the click hit no such button.
\<close>

definition handleRotationClick :: "int option \<Rightarrow> HeatmapApp \<Rightarrow> HeatmapApp" where
  "handleRotationClick button app =
     (if isViewOnly (state app) then app
      else if \<not> trackRotation app then app
      else
        (case button of
           None \<Rightarrow> app
         | Some r \<Rightarrow>
             (let app1 = app\<lparr>currentRotation := r\<rparr>
              in if activeRotationFilters app1 \<noteq> {}
                 then app1\<lparr>activeRotationFilters := insert r (activeRotationFilters app1)\<rparr>
                 else app1)))"

text \<open>What \<^verbatim>\<open>handleCombineFiles\<close> shows in an \<^verbatim>\<open>alert\<close>.\<close>

datatype Alert =
    SelectAtLeastTwo
  | ModeMismatch string string "string option"
  | TypeMismatch string string string
  | CombineError error

text \<open>The loop of \<^verbatim>\<open>await FileManager.loadFromFile\<close>: the first rejection is thrown.\<close>

fun loadAll :: "CombineFile list \<Rightarrow> error + SessionData list" where
  "loadAll [] = Inr []"
| "loadAll (f # fs) =
     (case file_load f of
        Inl e \<Rightarrow> Inl e
      | Inr data \<Rightarrow> (case loadAll fs of Inl e \<Rightarrow> Inl e | Inr ds \<Rightarrow> Inr (data # ds)))"

text \<open>
  The mode loop over the files and their documents, index by index:
  \<open>ModeMismatch name mode selected\<close> and \<open>TypeMismatch name mode firstMode\<close> are its
  two alerts, each followed by \<^verbatim>\<open>return\<close>.
\<close>

fun findModeError :: "string option \<Rightarrow> string \<Rightarrow> (CombineFile \<times> SessionData) list \<Rightarrow> Alert option" where
  "findModeError selected firstMode [] = None"
| "findModeError selected firstMode ((f, d) # rest) =
     (if Some (data_mode d) \<noteq> selected
        then Some (ModeMismatch (file_name f) (data_mode d) selected)
      else if data_mode d \<noteq> firstMode
        then Some (TypeMismatch (file_name f) (data_mode d) firstMode)
      else findModeError selected firstMode rest)"

text \<open>
  \<^verbatim>\<open>handleCombineFiles()\<close>. \<open>proceed\<close> is the answer to the \<^verbatim>\<open>confirm\<close> dialog, asked
  only above the point-count threshold. The result is the alert shown, if any, and the
  application state.
\<close>

definition handleCombineFiles :: "AppConfig \<Rightarrow> bool \<Rightarrow> HeatmapApp \<Rightarrow> Alert option \<times> HeatmapApp" where
  "handleCombineFiles cfg proceed app =
     (if length (combineFileList app) < 2 then (Some SelectAtLeastTwo, app)
      else
        (case loadAll (combineFileList app) of
           Inl e \<Rightarrow> (Some (CombineError e), app)
         | Inr loadedSessions \<Rightarrow>
             (let firstMode = data_mode (hd loadedSessions)
              in (case findModeError (combineMode app) firstMode
                         (zip (combineFileList app) loadedSessions) of
                    Some a \<Rightarrow> (Some a, app)
                  | None \<Rightarrow>
                      (let combinedPoints = concat (map data_points loadedSessions)
                       in if length combinedPoints > validation_maxPointCount cfg \<and> \<not> proceed
                          then (None, app)
                          else (None, app\<lparr>combinedData :=
                                  Some \<lparr> combined_mode = firstMode,
                                         combined_points = combinedPoints,
                                         combined_undoStack = [],
                                         combined_redoStack = [] \<rparr>\<rparr>))))))"

definition newApp :: HeatmapApp where
  "newApp = \<lparr> state = newSessionState, trackRotation = True, currentRotation = 1,
              activeRotationFilters = {}, combineMode = None, combineFileList = [],
              combinedData = None \<rparr>"

definition docA :: SessionData where
  "docA = \<lparr> data_name = ''A'', data_mode = ''heatmapCharting'',
            data_points = [legacyLinePoint 10 20],
            data_undoStack = None, data_redoStack = None \<rparr>"

definition docB :: SessionData where
  "docB = \<lparr> data_name = ''B'', data_mode = ''simpleHeatmap'',
            data_points = [simplePoint 1 1 None, simplePoint 2 2 None],
            data_undoStack = Some [Add (simplePoint 2 2 None)],
            data_redoStack = None \<rparr>"

definition docC :: SessionData where
  "docC = \<lparr> data_name = ''C'', data_mode = ''simpleHeatmap'',
            data_points = [simplePoint 2 2 None, simplePoint 3 3 None],
            data_undoStack = None, data_redoStack = None \<rparr>"

definition fileA :: CombineFile where
  "fileA = \<lparr> file_name = ''a_hmc.json'', file_load = Inr docA \<rparr>"

definition fileB :: CombineFile where
  "fileB = \<lparr> file_name = ''b_shm.json'', file_load = Inr docB \<rparr>"

definition fileC :: CombineFile where
  "fileC = \<lparr> file_name = ''c_shm.json'', file_load = Inr docC \<rparr>"

definition mismatchApp :: HeatmapApp where
  "mismatchApp = newApp\<lparr>combineMode := Some ''simpleHeatmap'', combineFileList := [fileA, fileB]\<rparr>"

definition matchingApp :: HeatmapApp where
  "matchingApp = newApp\<lparr>combineMode := Some ''simpleHeatmap'', combineFileList := [fileB, fileC]\<rparr>"

definition singleFileApp :: HeatmapApp where
  "singleFileApp = newApp\<lparr>combineMode := Some ''simpleHeatmap'', combineFileList := [fileB]\<rparr>"


section \<open>The ledger: trimming, undo and redo\<close>

lemma slice_last_length: "0 < n \<Longrightarrow> length (slice_last n xs) \<le> n"
  by (simp add: slice_last_def)

lemma slice_last_suffix: "suffix (slice_last n xs) xs"
  by (simp add: slice_last_def suffix_drop)

lemma slice_last_last: "0 < n \<Longrightarrow> xs \<noteq> [] \<Longrightarrow> last (slice_last n xs) = last xs"
  by (simp add: slice_last_def)

lemma slice_last_append:
  "slice_last n (slice_last n xs @ ys) = slice_last n (xs @ ys)"
proof (cases "length xs \<le> n")
  case True
  then show ?thesis by (simp add: slice_last_def)
next
  case False
  then have "length xs + length ys - (length xs - n + n) + (length xs - n)
               = length xs + length ys - n"
    by arith
  with False show ?thesis by (simp add: slice_last_def)
qed

lemma slice_last_map: "slice_last n (map f xs) = map f (slice_last n xs)"
  by (simp add: slice_last_def drop_map)

lemma slice_last_covered: "n \<le> length ys \<Longrightarrow> slice_last n (xs @ ys) = slice_last n ys"
  by (simp add: slice_last_def)

lemma undoStack_trimUndoStack:
  "undoStack (trimUndoStack cfg s) =
     (if validation_autoTrimUndoStack cfg \<and> 0 < validation_maxUndoStackSize cfg
         \<and> validation_maxUndoStackSize cfg < length (undoStack s)
      then slice_last (validation_maxUndoStackSize cfg) (undoStack s) else undoStack s)"
  by (simp add: trimUndoStack_def Let_def)

lemma trimUndoStack_other [simp]:
  "points (trimUndoStack cfg s) = points s"
  "redoStack (trimUndoStack cfg s) = redoStack s"
  "name (trimUndoStack cfg s) = name s"
  "mode (trimUndoStack cfg s) = mode s"
  "isViewOnly (trimUndoStack cfg s) = isViewOnly s"
  "migrationInfo (trimUndoStack cfg s) = migrationInfo s"
  by (simp_all add: trimUndoStack_def Let_def)

lemma redoStack_trimRedoStack:
  "redoStack (trimRedoStack cfg s) =
     (if validation_autoTrimUndoStack cfg \<and> 0 < validation_maxUndoStackSize cfg
         \<and> validation_maxUndoStackSize cfg < length (redoStack s)
      then slice_last (validation_maxUndoStackSize cfg) (redoStack s) else redoStack s)"
  by (simp add: trimRedoStack_def Let_def)

lemma trimRedoStack_other [simp]:
  "points (trimRedoStack cfg s) = points s"
  "undoStack (trimRedoStack cfg s) = undoStack s"
  "name (trimRedoStack cfg s) = name s"
  "mode (trimRedoStack cfg s) = mode s"
  "isViewOnly (trimRedoStack cfg s) = isViewOnly s"
  "migrationInfo (trimRedoStack cfg s) = migrationInfo s"
  by (simp_all add: trimRedoStack_def Let_def)

lemma undoStack_trim_bounded:
  assumes "validation_autoTrimUndoStack cfg" and "0 < validation_maxUndoStackSize cfg"
  shows "undoStack (trimUndoStack cfg s) = slice_last (validation_maxUndoStackSize cfg) (undoStack s)"
  using assms by (simp add: undoStack_trimUndoStack slice_last_def)

lemma redoStack_trim_bounded:
  assumes "validation_autoTrimUndoStack cfg" and "0 < validation_maxUndoStackSize cfg"
  shows "redoStack (trimRedoStack cfg s) = slice_last (validation_maxUndoStackSize cfg) (redoStack s)"
  using assms by (simp add: redoStack_trimRedoStack slice_last_def)

lemma trimUndoStack_id: "\<not> exceedsBound cfg (length (undoStack s)) \<Longrightarrow> trimUndoStack cfg s = s"
  by (auto simp: trimUndoStack_def exceedsBound_def Let_def)

lemma trimRedoStack_id: "\<not> exceedsBound cfg (length (redoStack s)) \<Longrightarrow> trimRedoStack cfg s = s"
  by (auto simp: trimRedoStack_def exceedsBound_def Let_def)

lemma assert_disabled: "\<not> debug_enabled cfg \<Longrightarrow> assert cfg c m = Inr ()"
  by (simp add: assert_def)

lemma addPoint_Inr:
  "addPoint cfg p s = Inr s' \<Longrightarrow>
     s' = (trimUndoStack cfg (s\<lparr>points := points s @ [p], undoStack := undoStack s @ [Add p]\<rparr>))\<lparr>redoStack := []\<rparr>"
  by (auto simp: addPoint_def Let_def assert_def split: if_splits sum.splits)

lemma addPoint_ok:
  "\<not> (debug_enabled cfg \<and> debug_assertionsEnabled cfg) \<or> rotation p \<noteq> None \<Longrightarrow>
     addPoint cfg p s = Inr ((trimUndoStack cfg (s\<lparr>points := points s @ [p], undoStack := undoStack s @ [Add p]\<rparr>))\<lparr>redoStack := []\<rparr>)"
  by (auto simp: addPoint_def Let_def assert_def split: if_splits sum.splits)

lemma addPoint_throws:
  "debug_enabled cfg \<Longrightarrow> debug_assertionsEnabled cfg \<Longrightarrow> rotation p = None \<Longrightarrow>
     addPoint cfg p s = Inl (AssertionFailed ''Assertion failed: Point must have rotation'')"
  by (auto simp: addPoint_def Let_def assert_def split: if_splits sum.splits)

lemmas ledger_defs = addPoint_def assert_def trimUndoStack_def trimRedoStack_def slice_last_def
  undo_def redo_def clearAllPoints_def removeLastPoint_def Let_def newSessionState_def CONFIG_def

subsection \<open>Undo followed by redo\<close>

lemma undo_no_trim:
  assumes "undoStack s \<noteq> []" and "\<not> exceedsBound cfg (length (redoStack s) + 1)"
  shows "undo cfg s =
           (True, (case last (undoStack s) of
                     Add p \<Rightarrow> s\<lparr>undoStack := butlast (undoStack s),
                                  redoStack := redoStack s @ [last (undoStack s)],
                                  points := butlast (points s)\<rparr>
                   | Clear ps \<Rightarrow> s\<lparr>undoStack := butlast (undoStack s),
                                  redoStack := redoStack s @ [last (undoStack s)],
                                  points := ps\<rparr>))"
  using assms by (simp add: undo_def Let_def trimRedoStack_id split: Action.splits)

lemma redo_no_trim:
  assumes "redoStack s \<noteq> []" and "\<not> exceedsBound cfg (length (undoStack s) + 1)"
  shows "redo cfg s =
           (True, (case last (redoStack s) of
                     Add p \<Rightarrow> s\<lparr>redoStack := butlast (redoStack s),
                                  undoStack := undoStack s @ [last (redoStack s)],
                                  points := points s @ [p]\<rparr>
                   | Clear ps \<Rightarrow> s\<lparr>redoStack := butlast (redoStack s),
                                  undoStack := undoStack s @ [last (redoStack s)],
                                  points := []\<rparr>))"
  using assms by (simp add: redo_def Let_def trimUndoStack_id split: Action.splits)

lemma undo_redo_roundtrip:
  assumes nonempty: "undoStack s \<noteq> []"
    and no_trim_undo: "\<not> exceedsBound cfg (length (redoStack s) + 1)"
    and no_trim_redo: "\<not> exceedsBound cfg (length (undoStack s))"
    and top: "topConsistent s"
  shows "fst (undo cfg s) \<and> fst (redo cfg (snd (undo cfg s)))
           \<and> snd (redo cfg (snd (undo cfg s))) = s"
proof (cases "last (undoStack s)")
  case (Add p)
  let ?u = "s\<lparr>undoStack := butlast (undoStack s),
               redoStack := redoStack s @ [last (undoStack s)],
               points := butlast (points s)\<rparr>"
  have u: "undo cfg s = (True, ?u)"
    using undo_no_trim [OF nonempty no_trim_undo] Add by simp
  have len: "length (undoStack ?u) + 1 = length (undoStack s)"
    using nonempty by (simp add: Suc_pred')
  have pts: "butlast (points s) @ [p] = points s"
    using top Add by (simp add: topConsistent_def) (metis append_butlast_last_id)
  have stk: "butlast (undoStack s) @ [Add p] = undoStack s"
    using nonempty Add by (metis append_butlast_last_id)
  have "redo cfg ?u = (True, s)"
    using redo_no_trim [of ?u cfg] no_trim_redo len nonempty Add pts stk
    by (simp del: One_nat_def)
  with u show ?thesis by simp
next
  case (Clear ps)
  let ?u = "s\<lparr>undoStack := butlast (undoStack s),
               redoStack := redoStack s @ [last (undoStack s)],
               points := ps\<rparr>"
  have u: "undo cfg s = (True, ?u)"
    using undo_no_trim [OF nonempty no_trim_undo] Clear by simp
  have len: "length (undoStack ?u) + 1 = length (undoStack s)"
    using nonempty by (simp add: Suc_pred')
  have pts: "points s = []"
    using top Clear by (simp add: topConsistent_def)
  have stk: "butlast (undoStack s) @ [Clear ps] = undoStack s"
    using nonempty Clear by (metis append_butlast_last_id)
  have "redo cfg ?u = (True, s)"
    using redo_no_trim [of ?u cfg] no_trim_redo len nonempty Clear pts stk
    by (simp del: One_nat_def)
  with u show ?thesis by simp
qed

text \<open>
  Claim C1, as the code has it. In a state whose undo stack is not empty and whose newest
  undo entry agrees with the points (\<open>topConsistent\<close>), and when neither the push to
  \<open>redoStack\<close> in \<^verbatim>\<open>undo()\<close> nor the push back to \<open>undoStack\<close> in \<^verbatim>\<open>redo()\<close>
  is trimmed, \<^verbatim>\<open>undo()\<close> followed by \<^verbatim>\<open>redo()\<close> returns true twice and gives back the
  state it started from: the same points, the same undo stack, the same redo stack.
\<close>

theorem undo_redo_identity:
  assumes "undoStack s \<noteq> []"
    and "\<not> exceedsBound cfg (length (redoStack s) + 1)"
    and "\<not> exceedsBound cfg (length (undoStack s))"
    and "topConsistent s"
  shows "fst (undo cfg s) \<and> fst (redo cfg (snd (undo cfg s)))
           \<and> points (snd (redo cfg (snd (undo cfg s)))) = points s
           \<and> undoStack (snd (redo cfg (snd (undo cfg s)))) = undoStack s
           \<and> redoStack (snd (redo cfg (snd (undo cfg s)))) = redoStack s
           \<and> snd (redo cfg (snd (undo cfg s))) = s"
  using undo_redo_roundtrip [OF assms] by simp

theorem undo_redo_identity_witness:
  "undoStack onePointState \<noteq> [] \<and> topConsistent onePointState
     \<and> undo CONFIG onePointState = (True, onePointState\<lparr>points := [], undoStack := [],
            redoStack := [Add (simplePoint 300 300 (Some 3))]\<rparr>)
     \<and> redo CONFIG (snd (undo CONFIG onePointState)) = (True, onePointState)"
proof -
  have h1: "undoStack onePointState \<noteq> []"
    by (simp add: onePointState_def)
  have h2: "\<not> exceedsBound CONFIG (length (redoStack onePointState) + 1)"
    by (simp add: onePointState_def exceedsBound_def ledger_defs)
  have h3: "\<not> exceedsBound CONFIG (length (undoStack onePointState))"
    by (simp add: onePointState_def exceedsBound_def ledger_defs)
  have h4: "topConsistent onePointState"
    by (simp add: onePointState_def topConsistent_def)
  have u: "undo CONFIG onePointState = (True, onePointState\<lparr>points := [], undoStack := [],
            redoStack := [Add (simplePoint 300 300 (Some 3))]\<rparr>)"
    by (simp add: onePointState_def ledger_defs)
  from undo_redo_identity [OF h1 h2 h3 h4] h1 h4 u show ?thesis
    by (simp add: prod_eq_iff)
qed

text \<open>
  Without the agreement the round trip is not the identity. After
  \<^verbatim>\<open>addPoint(p)\<close> and \<^verbatim>\<open>removeLastPoint()\<close>, or after loading a document with such
  stacks, the undo stack holds \<open>Add p\<close> over no points: \<^verbatim>\<open>undo()\<close> pops nothing from
  the empty array and \<^verbatim>\<open>redo()\<close> appends \<open>p\<close>. Nothing is trimmed on the way.
\<close>

theorem undo_redo_not_identity:
  "undoStack orphanUndoState \<noteq> []
     \<and> \<not> exceedsBound CONFIG (length (redoStack orphanUndoState) + 1)
     \<and> \<not> exceedsBound CONFIG (length (undoStack orphanUndoState))
     \<and> points orphanUndoState = []
     \<and> points (snd (redo CONFIG (snd (undo CONFIG orphanUndoState)))) = [simplePoint 300 300 (Some 3)]"
  by (simp add: orphanUndoState_def exceedsBound_def ledger_defs)

lemma orphanUndoState_reached:
  "addPoint CONFIG (simplePoint 300 300 (Some 3)) newSessionState = Inr onePointState"
  "removeLastPoint onePointState = (Some (simplePoint 300 300 (Some 3)), orphanUndoState)"
  by (simp_all add: orphanUndoState_def onePointState_def ledger_defs)

subsection \<open>The bound on the stacks\<close>

lemma addPoints_undoStack:
  assumes "validation_autoTrimUndoStack cfg" and "0 < validation_maxUndoStackSize cfg"
    and "\<forall>p \<in> set ps. addPointAssertionsHold cfg p" and "ps \<noteq> []"
  shows "\<exists>s'. addPoints cfg ps s = Inr s'
            \<and> undoStack s' = slice_last (validation_maxUndoStackSize cfg) (undoStack s @ map Add ps)
            \<and> points s' = points s @ ps \<and> redoStack s' = []"
  using assms(3,4)
proof (induction ps arbitrary: s)
  case Nil
  then show ?case by simp
next
  case (Cons p ps)
  let ?s1 = "(trimUndoStack cfg (s\<lparr>points := points s @ [p], undoStack := undoStack s @ [Add p]\<rparr>))\<lparr>redoStack := []\<rparr>"
  have step: "addPoint cfg p s = Inr ?s1"
    using Cons.prems by (intro addPoint_ok) (simp add: addPointAssertionsHold_def)
  have u1: "undoStack ?s1 = slice_last (validation_maxUndoStackSize cfg) (undoStack s @ [Add p])"
    by (simp add: undoStack_trim_bounded [OF assms(1,2)])
  show ?case
  proof (cases "ps = []")
    case True
    with step u1 show ?thesis by simp
  next
    case False
    from Cons.IH [of ?s1] Cons.prems False
    obtain s' where s': "addPoints cfg ps ?s1 = Inr s'"
      "undoStack s' = slice_last (validation_maxUndoStackSize cfg) (undoStack ?s1 @ map Add ps)"
      "points s' = points ?s1 @ ps" "redoStack s' = []"
      by auto
    have "undoStack s' = slice_last (validation_maxUndoStackSize cfg) (undoStack s @ map Add (p # ps))"
      using s'(2) u1 slice_last_append [of "validation_maxUndoStackSize cfg" "undoStack s @ [Add p]" "map Add ps"]
      by simp
    with step s' show ?thesis by simp
  qed
qed

lemma addPoint_undoStack_bound:
  assumes "validation_autoTrimUndoStack cfg" and "0 < validation_maxUndoStackSize cfg"
    and "addPoint cfg p s = Inr s1"
  shows "length (undoStack s1) \<le> validation_maxUndoStackSize cfg"
    and "suffix (undoStack s1) (undoStack s @ [Add p])"
    and "last (undoStack s1) = Add p"
proof -
  have u: "undoStack s1 = slice_last (validation_maxUndoStackSize cfg) (undoStack s @ [Add p])"
    using addPoint_Inr [OF assms(3)] by (simp add: undoStack_trim_bounded [OF assms(1,2)])
  show "length (undoStack s1) \<le> validation_maxUndoStackSize cfg"
    using u slice_last_length [OF assms(2)] by simp
  show "suffix (undoStack s1) (undoStack s @ [Add p])"
    using u slice_last_suffix by metis
  show "last (undoStack s1) = Add p"
    using u slice_last_last [OF assms(2), of "undoStack s @ [Add p]"] by simp
qed

lemma clearAllPoints_undoStack_bound:
  assumes "validation_autoTrimUndoStack cfg" and "0 < validation_maxUndoStackSize cfg"
    and "points s \<noteq> []"
  shows "length (undoStack (clearAllPoints cfg s)) \<le> validation_maxUndoStackSize cfg"
    and "suffix (undoStack (clearAllPoints cfg s)) (undoStack s @ [Clear (points s)])"
    and "last (undoStack (clearAllPoints cfg s)) = Clear (points s)"
proof -
  have u: "undoStack (clearAllPoints cfg s)
             = slice_last (validation_maxUndoStackSize cfg) (undoStack s @ [Clear (points s)])"
    using assms(3) by (simp add: clearAllPoints_def Let_def undoStack_trim_bounded [OF assms(1,2)])
  show "length (undoStack (clearAllPoints cfg s)) \<le> validation_maxUndoStackSize cfg"
    using u slice_last_length [OF assms(2)] by simp
  show "suffix (undoStack (clearAllPoints cfg s)) (undoStack s @ [Clear (points s)])"
    using u slice_last_suffix by metis
  show "last (undoStack (clearAllPoints cfg s)) = Clear (points s)"
    using u slice_last_last [OF assms(2), of "undoStack s @ [Clear (points s)]"] by simp
qed

lemma undo_redoStack_bound:
  assumes "validation_autoTrimUndoStack cfg" and "0 < validation_maxUndoStackSize cfg"
    and "undoStack s \<noteq> []"
  shows "length (redoStack (snd (undo cfg s))) \<le> validation_maxUndoStackSize cfg"
    and "suffix (redoStack (snd (undo cfg s))) (redoStack s @ [last (undoStack s)])"
    and "last (redoStack (snd (undo cfg s))) = last (undoStack s)"
proof -
  have u: "redoStack (snd (undo cfg s))
             = slice_last (validation_maxUndoStackSize cfg) (redoStack s @ [last (undoStack s)])"
    using assms(3)
    by (simp add: undo_def Let_def redoStack_trim_bounded [OF assms(1,2)] split: Action.splits)
  show "length (redoStack (snd (undo cfg s))) \<le> validation_maxUndoStackSize cfg"
    using u slice_last_length [OF assms(2)] by simp
  show "suffix (redoStack (snd (undo cfg s))) (redoStack s @ [last (undoStack s)])"
    using u slice_last_suffix by metis
  show "last (redoStack (snd (undo cfg s))) = last (undoStack s)"
    using u slice_last_last [OF assms(2), of "redoStack s @ [last (undoStack s)]"] by simp
qed

lemma redo_undoStack_bound:
  assumes "validation_autoTrimUndoStack cfg" and "0 < validation_maxUndoStackSize cfg"
    and "redoStack s \<noteq> []"
  shows "length (undoStack (snd (redo cfg s))) \<le> validation_maxUndoStackSize cfg"
    and "suffix (undoStack (snd (redo cfg s))) (undoStack s @ [last (redoStack s)])"
    and "last (undoStack (snd (redo cfg s))) = last (redoStack s)"
proof -
  have u: "undoStack (snd (redo cfg s))
             = slice_last (validation_maxUndoStackSize cfg) (undoStack s @ [last (redoStack s)])"
    using assms(3)
    by (simp add: redo_def Let_def undoStack_trim_bounded [OF assms(1,2)] split: Action.splits)
  show "length (undoStack (snd (redo cfg s))) \<le> validation_maxUndoStackSize cfg"
    using u slice_last_length [OF assms(2)] by simp
  show "suffix (undoStack (snd (redo cfg s))) (undoStack s @ [last (redoStack s)])"
    using u slice_last_suffix by metis
  show "last (undoStack (snd (redo cfg s))) = last (redoStack s)"
    using u slice_last_last [OF assms(2), of "undoStack s @ [last (redoStack s)]"] by simp
qed

lemma addPoints_most_recent:
  assumes "validation_autoTrimUndoStack cfg" and "0 < validation_maxUndoStackSize cfg"
    and "validation_maxUndoStackSize cfg < length ps"
    and "\<forall>q \<in> set ps. addPointAssertionsHold cfg q"
  shows "\<exists>s'. addPoints cfg ps s = Inr s'
            \<and> length (undoStack s') = validation_maxUndoStackSize cfg
            \<and> undoStack s' = map Add (drop (length ps - validation_maxUndoStackSize cfg) ps)"
proof -
  from assms(3) have ne: "ps \<noteq> []" by auto
  from addPoints_undoStack [OF assms(1,2,4) ne, of s]
  obtain s' where s': "addPoints cfg ps s = Inr s'"
    "undoStack s' = slice_last (validation_maxUndoStackSize cfg) (undoStack s @ map Add ps)"
    by blast
  have "slice_last (validation_maxUndoStackSize cfg) (undoStack s @ map Add ps)
          = map Add (slice_last (validation_maxUndoStackSize cfg) ps)"
    using assms(3) by (simp add: slice_last_covered slice_last_map)
  with s' have u: "undoStack s' = map Add (drop (length ps - validation_maxUndoStackSize cfg) ps)"
    by (simp add: slice_last_def)
  moreover have "length (undoStack s') = validation_maxUndoStackSize cfg"
    using u assms(3) by simp
  ultimately show ?thesis using s'(1) by blast
qed

text \<open>
  Claim C2. With auto-trim on and a bound \<open>M > 0\<close>, each of the four pushes
  (\<^verbatim>\<open>addPoint\<close>, \<^verbatim>\<open>clearAllPoints\<close> on a non-empty point sequence, \<^verbatim>\<open>undo\<close>,
  \<^verbatim>\<open>redo\<close>) leaves the stack it pushed to with at most \<open>M\<close> entries; that stack is a
  suffix of the stack with the new entry appended, so only entries at the front are
  evicted, and its last entry is the new one. After more than \<open>M\<close> consecutive
  \<^verbatim>\<open>addPoint\<close> calls from any state, none of which throws an assertion, the undo stack
  has exactly \<open>M\<close> entries: the \<open>Add\<close> actions of the last \<open>M\<close> calls, in call order.
\<close>

theorem trim_policy_bound:
  assumes autoTrim: "validation_autoTrimUndoStack cfg"
    and bound: "0 < validation_maxUndoStackSize cfg"
  shows "(addPoint cfg p s = Inr s1 \<longrightarrow>
            length (undoStack s1) \<le> validation_maxUndoStackSize cfg
            \<and> suffix (undoStack s1) (undoStack s @ [Add p])
            \<and> last (undoStack s1) = Add p)
       \<and> (points s \<noteq> [] \<longrightarrow>
            length (undoStack (clearAllPoints cfg s)) \<le> validation_maxUndoStackSize cfg
            \<and> suffix (undoStack (clearAllPoints cfg s)) (undoStack s @ [Clear (points s)])
            \<and> last (undoStack (clearAllPoints cfg s)) = Clear (points s))
       \<and> (undoStack s \<noteq> [] \<longrightarrow>
            length (redoStack (snd (undo cfg s))) \<le> validation_maxUndoStackSize cfg
            \<and> suffix (redoStack (snd (undo cfg s))) (redoStack s @ [last (undoStack s)])
            \<and> last (redoStack (snd (undo cfg s))) = last (undoStack s))
       \<and> (redoStack s \<noteq> [] \<longrightarrow>
            length (undoStack (snd (redo cfg s))) \<le> validation_maxUndoStackSize cfg
            \<and> suffix (undoStack (snd (redo cfg s))) (undoStack s @ [last (redoStack s)])
            \<and> last (undoStack (snd (redo cfg s))) = last (redoStack s))
       \<and> (validation_maxUndoStackSize cfg < length ps
            \<and> (\<forall>q \<in> set ps. addPointAssertionsHold cfg q) \<longrightarrow>
            (\<exists>s'. addPoints cfg ps s = Inr s'
               \<and> length (undoStack s') = validation_maxUndoStackSize cfg
               \<and> undoStack s' = map Add (drop (length ps - validation_maxUndoStackSize cfg) ps)))"
  using addPoint_undoStack_bound [OF autoTrim bound, of p s s1]
    clearAllPoints_undoStack_bound [OF autoTrim bound, of s]
    undo_redoStack_bound [OF autoTrim bound, of s]
    redo_undoStack_bound [OF autoTrim bound, of s]
    addPoints_most_recent [OF autoTrim bound, of ps s]
  by blast

theorem trim_policy_bound_witness:
  "validation_autoTrimUndoStack smallConfig \<and> 0 < validation_maxUndoStackSize smallConfig
     \<and> addPoint smallConfig (simplePoint 5 5 None) busyState
          = Inr (busyState\<lparr>points := points busyState @ [simplePoint 5 5 None],
                   undoStack := [Add (simplePoint 2 2 None), Add (simplePoint 5 5 None)],
                   redoStack := []\<rparr>)
     \<and> points busyState \<noteq> []
     \<and> undoStack (clearAllPoints smallConfig busyState)
          = [Add (simplePoint 2 2 None), Clear (points busyState)]
     \<and> undoStack busyState \<noteq> []
     \<and> redoStack (snd (undo smallConfig busyState))
          = [Add (simplePoint 4 4 None), Add (simplePoint 2 2 None)]
     \<and> redoStack busyState \<noteq> []
     \<and> undoStack (snd (redo smallConfig busyState))
          = [Add (simplePoint 2 2 None), Add (simplePoint 4 4 None)]
     \<and> validation_maxUndoStackSize smallConfig
          < length [simplePoint 7 7 None, simplePoint 8 8 None, simplePoint 9 9 None]
     \<and> (\<exists>s'. addPoints smallConfig
                [simplePoint 7 7 None, simplePoint 8 8 None, simplePoint 9 9 None] busyState = Inr s'
            \<and> length (undoStack s') = 2
            \<and> undoStack s' = [Add (simplePoint 8 8 None), Add (simplePoint 9 9 None)])"
proof -
  have h1: "validation_autoTrimUndoStack smallConfig"
    by (simp add: smallConfig_def CONFIG_def)
  have h2: "0 < validation_maxUndoStackSize smallConfig"
    by (simp add: smallConfig_def CONFIG_def)
  have h3: "\<forall>q \<in> set [simplePoint 7 7 None, simplePoint 8 8 None, simplePoint 9 9 None].
              addPointAssertionsHold smallConfig q"
    by (simp add: addPointAssertionsHold_def smallConfig_def CONFIG_def)
  have m: "validation_maxUndoStackSize smallConfig = 2"
    by (simp add: smallConfig_def CONFIG_def)
  have a: "addPoint smallConfig (simplePoint 5 5 None) busyState
          = Inr (busyState\<lparr>points := points busyState @ [simplePoint 5 5 None],
                   undoStack := [Add (simplePoint 2 2 None), Add (simplePoint 5 5 None)],
                   redoStack := []\<rparr>)"
    by (simp add: busyState_def smallConfig_def ledger_defs)
  have c: "undoStack (clearAllPoints smallConfig busyState)
          = [Add (simplePoint 2 2 None), Clear (points busyState)]"
    by (simp add: busyState_def smallConfig_def ledger_defs)
  have u: "redoStack (snd (undo smallConfig busyState))
          = [Add (simplePoint 4 4 None), Add (simplePoint 2 2 None)]"
    by (simp add: busyState_def smallConfig_def ledger_defs)
  have r: "undoStack (snd (redo smallConfig busyState))
          = [Add (simplePoint 2 2 None), Add (simplePoint 4 4 None)]"
    by (simp add: busyState_def smallConfig_def ledger_defs)
  have ne: "points busyState \<noteq> []" "undoStack busyState \<noteq> []" "redoStack busyState \<noteq> []"
    by (simp_all add: busyState_def)
  from trim_policy_bound [OF h1 h2, of "simplePoint 5 5 None" busyState _
      "[simplePoint 7 7 None, simplePoint 8 8 None, simplePoint 9 9 None]"] h3 m
  have "\<exists>s'. addPoints smallConfig
                [simplePoint 7 7 None, simplePoint 8 8 None, simplePoint 9 9 None] busyState = Inr s'
            \<and> length (undoStack s') = 2
            \<and> undoStack s' = [Add (simplePoint 8 8 None), Add (simplePoint 9 9 None)]"
    by simp
  with h1 h2 a c u r ne m show ?thesis by simp
qed

subsection \<open>A session from start to redo\<close>

text \<open>
  A new session, one point added at \<open>(300, 300)\<close> with rotation 3: one point; after
  \<^verbatim>\<open>undo()\<close> no point and \<^verbatim>\<open>canRedo()\<close>; after \<^verbatim>\<open>redo()\<close> the point again.
\<close>

lemma scenario_add_undo_redo:
  "addPoint CONFIG (simplePoint 300 300 (Some 3)) newSessionState = Inr onePointState"
  "length (points onePointState) = 1"
  "points (snd (undo CONFIG onePointState)) = []"
  "canRedo (snd (undo CONFIG onePointState))"
  "points (snd (redo CONFIG (snd (undo CONFIG onePointState)))) = [simplePoint 300 300 (Some 3)]"
  by (simp_all add: onePointState_def canRedo_def ledger_defs)

subsection \<open>States built by the ledger operations\<close>

text \<open>
  Every state that \<^verbatim>\<open>addPoint\<close>, \<^verbatim>\<open>clearAllPoints\<close>, \<^verbatim>\<open>undo\<close> and \<^verbatim>\<open>redo\<close>
  produce from an empty session satisfies the ledger invariant, trimmed or not, and so its
  newest undo entry agrees with its points.
\<close>

lemma replay_append:
  "replay base (as @ bs) = (case replay base as of None \<Rightarrow> None | Some pts \<Rightarrow> replay pts bs)"
  by (induction base as rule: replay.induct) auto

lemma replay_drop:
  "replay base as = Some res \<Longrightarrow> \<exists>base'. replay base' (drop k as) = Some res"
proof (induction base as arbitrary: k rule: replay.induct)
  case (1 pts)
  then show ?case by auto
next
  case (2 pts p as)
  show ?case
  proof (cases k)
    case 0
    with "2.prems" show ?thesis by auto
  next
    case (Suc k')
    with "2.IH" [of k'] "2.prems" show ?thesis by simp
  qed
next
  case (3 pts ps as)
  show ?case
  proof (cases k)
    case 0
    with "3.prems" have "replay pts (drop k (Clear ps # as)) = Some res" by simp
    then show ?thesis by blast
  next
    case (Suc k')
    with "3.IH" [of k'] "3.prems" show ?thesis by (simp split: if_splits)
  qed
qed

lemma replay_take:
  "replay base as \<noteq> None \<Longrightarrow> replay base (take k as) \<noteq> None"
proof (induction base as arbitrary: k rule: replay.induct)
  case (1 pts)
  then show ?case by simp
next
  case (2 pts p as)
  then show ?case by (cases k) auto
next
  case (3 pts ps as)
  then show ?case by (cases k) (auto split: if_splits)
qed

lemma trimmed_undo_is_drop:
  "\<exists>k. undoStack (trimUndoStack cfg s) = drop k (undoStack s)"
proof (cases "validation_autoTrimUndoStack cfg \<and> 0 < validation_maxUndoStackSize cfg
         \<and> validation_maxUndoStackSize cfg < length (undoStack s)")
  case True
  then have "undoStack (trimUndoStack cfg s)
      = drop (length (undoStack s) - validation_maxUndoStackSize cfg) (undoStack s)"
    by (simp add: undoStack_trimUndoStack slice_last_def)
  then show ?thesis by blast
next
  case False
  then have "undoStack (trimUndoStack cfg s) = drop 0 (undoStack s)"
    by (auto simp: undoStack_trimUndoStack)
  then show ?thesis by blast
qed

lemma trimmed_redo_is_drop:
  "\<exists>k. redoStack (trimRedoStack cfg s) = drop k (redoStack s)"
proof (cases "validation_autoTrimUndoStack cfg \<and> 0 < validation_maxUndoStackSize cfg
         \<and> validation_maxUndoStackSize cfg < length (redoStack s)")
  case True
  then have "redoStack (trimRedoStack cfg s)
      = drop (length (redoStack s) - validation_maxUndoStackSize cfg) (redoStack s)"
    by (simp add: redoStack_trimRedoStack slice_last_def)
  then show ?thesis by blast
next
  case False
  then have "redoStack (trimRedoStack cfg s) = drop 0 (redoStack s)"
    by (auto simp: redoStack_trimRedoStack)
  then show ?thesis by blast
qed

lemma invariant_addPoint:
  assumes "ledgerInvariant s" and "addPoint cfg p s = Inr s'"
  shows "ledgerInvariant s'"
proof -
  let ?s2 = "s\<lparr>points := points s @ [p], undoStack := undoStack s @ [Add p]\<rparr>"
  have s': "s' = (trimUndoStack cfg ?s2)\<lparr>redoStack := []\<rparr>"
    using addPoint_Inr [OF assms(2)] .
  from assms(1) obtain base where "replay base (undoStack s) = Some (points s)"
    by (auto simp: ledgerInvariant_def)
  then have full: "replay base (undoStack ?s2) = Some (points s @ [p])"
    by (simp add: replay_append)
  obtain k where k: "undoStack (trimUndoStack cfg ?s2) = drop k (undoStack ?s2)"
    using trimmed_undo_is_drop by blast
  from replay_drop [OF full, of k] k
  have "\<exists>base'. replay base' (undoStack (trimUndoStack cfg ?s2)) = Some (points s @ [p])"
    by simp
  then show ?thesis
    by (simp add: s' ledgerInvariant_def)
qed

lemma invariant_clearAllPoints:
  assumes "ledgerInvariant s"
  shows "ledgerInvariant (clearAllPoints cfg s)"
proof (cases "points s = []")
  case True
  then have "clearAllPoints cfg s = s"
    by (simp add: clearAllPoints_def Let_def)
  with assms show ?thesis by simp
next
  case False
  let ?s1 = "s\<lparr>undoStack := undoStack s @ [Clear (points s)]\<rparr>"
  from assms obtain base where "replay base (undoStack s) = Some (points s)"
    by (auto simp: ledgerInvariant_def)
  then have full: "replay base (undoStack ?s1) = Some []"
    by (simp add: replay_append)
  obtain k where k: "undoStack (trimUndoStack cfg ?s1) = drop k (undoStack ?s1)"
    using trimmed_undo_is_drop by blast
  from replay_drop [OF full, of k] k
  have "\<exists>base'. replay base' (undoStack (trimUndoStack cfg ?s1)) = Some []"
    by simp
  with False show ?thesis
    by (simp add: clearAllPoints_def Let_def ledgerInvariant_def)
qed

lemma replay_snoc_Some:
  assumes "replay base (as @ [a]) = Some pts"
  obtains q where "replay base as = Some q" and "replay q [a] = Some pts"
  using assms by (auto simp: replay_append split: option.splits)

lemma invariant_undo:
  assumes "ledgerInvariant s"
  shows "ledgerInvariant (snd (undo cfg s))"
proof (cases "undoStack s = []")
  case True
  then have "undo cfg s = (False, s)" by (simp add: undo_def)
  with assms show ?thesis by simp
next
  case False
  let ?a = "last (undoStack s)"
  let ?st = "butlast (undoStack s)"
  have stack: "undoStack s = ?st @ [?a]" using False by simp
  from assms obtain base where base: "replay base (undoStack s) = Some (points s)"
    and redo_ok: "replay (points s) (rev (redoStack s)) \<noteq> None"
    by (auto simp: ledgerInvariant_def)
  from base stack have "replay base (?st @ [?a]) = Some (points s)" by simp
  then obtain q where q: "replay base ?st = Some q" "replay q [?a] = Some (points s)"
    by (rule replay_snoc_Some)
  let ?s2 = "s\<lparr>undoStack := ?st, redoStack := redoStack s @ [?a]\<rparr>"
  obtain k where k: "redoStack (trimRedoStack cfg ?s2) = drop k (redoStack ?s2)"
    using trimmed_redo_is_drop by blast
  have ahead: "replay q (rev (redoStack ?s2)) \<noteq> None"
    using q(2) redo_ok by (cases ?a) (auto split: if_splits)
  have "rev (drop k (redoStack ?s2)) = take (length (redoStack ?s2) - k) (rev (redoStack ?s2))"
    by (rule rev_drop)
  with replay_take [OF ahead, of "length (redoStack ?s2) - k"] k
  have redo': "replay q (rev (redoStack (trimRedoStack cfg ?s2))) \<noteq> None"
    by simp
  have pts: "points (snd (undo cfg s)) = q"
  proof (cases ?a)
    case (Add p)
    with q(2) have "points s = q @ [p]" by simp
    with False Add show ?thesis by (simp add: undo_def Let_def)
  next
    case (Clear ps)
    with q(2) have "ps = q" by (simp split: if_splits)
    with False Clear show ?thesis by (simp add: undo_def Let_def)
  qed
  have us: "undoStack (snd (undo cfg s)) = ?st"
    using False by (cases ?a) (auto simp: undo_def Let_def)
  have rs: "redoStack (snd (undo cfg s)) = redoStack (trimRedoStack cfg ?s2)"
    using False by (cases ?a) (auto simp: undo_def Let_def)
  show ?thesis
    unfolding ledgerInvariant_def pts us rs using q(1) redo' by blast
qed

lemma invariant_redo:
  assumes "ledgerInvariant s"
  shows "ledgerInvariant (snd (redo cfg s))"
proof (cases "redoStack s = []")
  case True
  then have "redo cfg s = (False, s)" by (simp add: redo_def)
  with assms show ?thesis by simp
next
  case False
  let ?a = "last (redoStack s)"
  let ?rt = "butlast (redoStack s)"
  have stack: "rev (redoStack s) = ?a # rev ?rt"
    using False by (metis append_butlast_last_id rev.simps(2) rev_rev_ident rev_swap rev_append append_Cons append_Nil)
  from assms obtain base where base: "replay base (undoStack s) = Some (points s)"
    and redo_ok: "replay (points s) (rev (redoStack s)) \<noteq> None"
    by (auto simp: ledgerInvariant_def)
  from redo_ok stack have ahead: "replay (points s) (?a # rev ?rt) \<noteq> None" by simp
  let ?s2 = "s\<lparr>redoStack := ?rt, undoStack := undoStack s @ [?a]\<rparr>"
  let ?pts = "case ?a of Add p \<Rightarrow> points s @ [p] | Clear ps \<Rightarrow> []"
  have step: "replay (points s) [?a] = Some ?pts" "replay ?pts (rev ?rt) \<noteq> None"
    using ahead by (cases ?a; auto split: if_splits)+
  have full: "replay base (undoStack ?s2) = Some ?pts"
    using base step(1) by (simp add: replay_append)
  obtain k where k: "undoStack (trimUndoStack cfg ?s2) = drop k (undoStack ?s2)"
    using trimmed_undo_is_drop by blast
  from replay_drop [OF full, of k] k
  have undo': "\<exists>base'. replay base' (undoStack (trimUndoStack cfg ?s2)) = Some ?pts"
    by simp
  have pts: "points (snd (redo cfg s)) = ?pts"
    using False by (cases ?a) (auto simp: redo_def Let_def)
  have us: "undoStack (snd (redo cfg s)) = undoStack (trimUndoStack cfg ?s2)"
    using False by (cases ?a) (auto simp: redo_def Let_def)
  have rs: "redoStack (snd (redo cfg s)) = ?rt"
    using False by (cases ?a) (auto simp: redo_def Let_def)
  show ?thesis
    unfolding ledgerInvariant_def pts us rs using undo' step(2) by blast
qed

lemma reachable_invariant: "reachable cfg s \<Longrightarrow> ledgerInvariant s"
proof (induction rule: reachable.induct)
  case (reach_new s)
  then show ?case by (simp add: ledgerInvariant_def)
next
  case (reach_addPoint s p s')
  then show ?case using invariant_addPoint by blast
next
  case (reach_clearAllPoints s)
  then show ?case using invariant_clearAllPoints by blast
next
  case (reach_undo s)
  then show ?case using invariant_undo by blast
next
  case (reach_redo s)
  then show ?case using invariant_redo by blast
qed

lemma invariant_topConsistent:
  assumes "ledgerInvariant s" and "undoStack s \<noteq> []"
  shows "topConsistent s"
proof -
  from assms(1) obtain base where base: "replay base (undoStack s) = Some (points s)"
    by (auto simp: ledgerInvariant_def)
  have "undoStack s = butlast (undoStack s) @ [last (undoStack s)]"
    using assms(2) by simp
  with base have "replay base (butlast (undoStack s) @ [last (undoStack s)]) = Some (points s)"
    by simp
  then obtain q where q: "replay q [last (undoStack s)] = Some (points s)"
    by (rule replay_snoc_Some)
  show ?thesis
  proof (cases "last (undoStack s)")
    case (Add p)
    with q have "points s = q @ [p]" by simp
    with Add show ?thesis by (simp add: topConsistent_def)
  next
    case (Clear ps)
    with q have "points s = []" by (simp split: if_splits)
    with Clear show ?thesis by (simp add: topConsistent_def)
  qed
qed

lemma reachable_topConsistent:
  "reachable cfg s \<Longrightarrow> undoStack s \<noteq> [] \<Longrightarrow> topConsistent s"
  using reachable_invariant invariant_topConsistent by blast

lemma reachable_undo_redo_roundtrip:
  assumes "reachable cfg s" and "undoStack s \<noteq> []"
    and "\<not> exceedsBound cfg (length (redoStack s) + 1)"
    and "\<not> exceedsBound cfg (length (undoStack s))"
  shows "fst (undo cfg s) \<and> fst (redo cfg (snd (undo cfg s)))
           \<and> snd (redo cfg (snd (undo cfg s))) = s"
  using undo_redo_roundtrip [OF assms(2,3,4)] reachable_topConsistent [OF assms(1,2)] by simp

text \<open>
  Claim C9. An \<^verbatim>\<open>addPoint\<close> call that returns leaves the redo stack empty, and it
  returns whenever its assertions hold (always under the shipped configuration);
  \<^verbatim>\<open>clearAllPoints\<close> on a non-empty point sequence leaves the redo stack empty; on an
  empty point sequence it changes nothing, so both stacks stay as they were.
\<close>

theorem redoStack_emptied:
  "(addPoint cfg p s = Inr s1 \<longrightarrow> redoStack s1 = [])
   \<and> (addPointAssertionsHold cfg p \<longrightarrow> (\<exists>s2. addPoint cfg p s = Inr s2 \<and> redoStack s2 = []))
   \<and> (\<exists>s3. addPoint CONFIG p s = Inr s3 \<and> redoStack s3 = [])
   \<and> (points s \<noteq> [] \<longrightarrow> redoStack (clearAllPoints cfg s) = [])
   \<and> (points s = [] \<longrightarrow>
         clearAllPoints cfg s = s
         \<and> undoStack (clearAllPoints cfg s) = undoStack s
         \<and> redoStack (clearAllPoints cfg s) = redoStack s)"
proof -
  have a: "addPoint cfg p s = Inr s1 \<longrightarrow> redoStack s1 = []"
    using addPoint_Inr [of cfg p s s1] by auto
  have b: "addPointAssertionsHold cfg p \<longrightarrow> (\<exists>s2. addPoint cfg p s = Inr s2 \<and> redoStack s2 = [])"
    using addPoint_ok [of cfg p s] by (auto simp: addPointAssertionsHold_def)
  have c: "\<exists>s3. addPoint CONFIG p s = Inr s3 \<and> redoStack s3 = []"
    using addPoint_ok [of CONFIG p s] by (simp add: CONFIG_def)
  have d: "points s \<noteq> [] \<longrightarrow> redoStack (clearAllPoints cfg s) = []"
    by (simp add: clearAllPoints_def Let_def)
  have e: "points s = [] \<longrightarrow> clearAllPoints cfg s = s"
    by (simp add: clearAllPoints_def Let_def)
  from a b c d e show ?thesis by simp
qed

theorem redoStack_emptied_witness:
  "redoStack busyState \<noteq> [] \<and> points busyState \<noteq> []
   \<and> addPointAssertionsHold CONFIG (simplePoint 5 5 None)
   \<and> (\<exists>s2. addPoint CONFIG (simplePoint 5 5 None) busyState = Inr s2 \<and> redoStack s2 = [])
   \<and> redoStack (clearAllPoints CONFIG busyState) = []
   \<and> points idleState = [] \<and> redoStack idleState \<noteq> []
   \<and> clearAllPoints CONFIG idleState = idleState"
proof -
  have h1: "addPointAssertionsHold CONFIG (simplePoint 5 5 None)"
    by (simp add: addPointAssertionsHold_def CONFIG_def)
  have h2: "points busyState \<noteq> []" "redoStack busyState \<noteq> []"
    by (simp_all add: busyState_def)
  have h3: "points idleState = []" "redoStack idleState \<noteq> []"
    by (simp_all add: idleState_def newSessionState_def)
  from redoStack_emptied [of CONFIG "simplePoint 5 5 None" busyState]
    redoStack_emptied [of CONFIG "simplePoint 5 5 None" idleState] h1 h2 h3
  show ?thesis by simp
qed

text \<open>
  Claim C10. With \<^verbatim>\<open>debug.enabled\<close> false, as shipped, \<^verbatim>\<open>assert\<close> returns normally
  whatever its condition, so the asserting operations complete: \<^verbatim>\<open>addPoint\<close> appends
  the point also when its rotation is \<^verbatim>\<open>null\<close>, and the \<^verbatim>\<open>GridGeometry\<close>
  constructor builds the geometry also for a mode outside the valid ones.
\<close>

theorem assertions_disabled_never_throw:
  assumes "\<not> debug_enabled cfg"
  shows "assert cfg condition message = Inr ()
         \<and> (\<exists>s1. addPoint cfg p s = Inr s1 \<and> points s1 = points s @ [p])
         \<and> GridGeometry_new cfg config m = Inr \<lparr> geo_config = config, geo_mode = m \<rparr>"
proof -
  have a: "assert cfg c msg = Inr ()" for c msg
    using assms by (simp add: assert_def)
  have b: "\<exists>s1. addPoint cfg p s = Inr s1 \<and> points s1 = points s @ [p]"
    using addPoint_ok [of cfg p s] assms by simp
  have c: "GridGeometry_new cfg config m = Inr \<lparr> geo_config = config, geo_mode = m \<rparr>"
    by (simp add: GridGeometry_new_def a)
  from a b c show ?thesis by simp
qed

theorem assertions_disabled_never_throw_witness:
  "\<not> debug_enabled CONFIG
   \<and> assert CONFIG False ''Point must have rotation'' = Inr ()
   \<and> rotation (simplePoint 300 300 None) = None
   \<and> (\<exists>s1. addPoint CONFIG (simplePoint 300 300 None) newSessionState = Inr s1
         \<and> points s1 = [simplePoint 300 300 None])
   \<and> GridGeometry_new CONFIG CONFIG ''other'' = Inr \<lparr> geo_config = CONFIG, geo_mode = ''other'' \<rparr>"
proof -
  have h: "\<not> debug_enabled CONFIG"
    by (simp add: CONFIG_def)
  have r: "rotation (simplePoint 300 300 None) = None" "points newSessionState = []"
    by (simp_all add: simplePoint_def newSessionState_def)
  from assertions_disabled_never_throw [OF h, of False "''Point must have rotation''"
      "simplePoint 300 300 None" newSessionState CONFIG "''other''"] h r
  show ?thesis by simp
qed

text \<open>
  With both debug switches on the same call throws: the assertions are live code, and
  the theorem above is about the switch, not about an assertion that cannot fail.
\<close>

lemma addPoint_throws_in_debug:
  "addPoint debugConfig (simplePoint 300 300 None) newSessionState
     = Inl (AssertionFailed ''Assertion failed: Point must have rotation'')"
  by (simp add: addPoint_throws debugConfig_def CONFIG_def simplePoint_def)


section \<open>Geometry: pixels to meters\<close>

subsection \<open>The fixed notation read back\<close>

lemma digit_cases:
  assumes "0 \<le> d" and "d < 10"
  shows "d \<in> {0, 1, 2, 3, 4, 5, 6, 7, 8, 9 :: int}"
proof -
  from assms have "d = 0 \<or> d = 1 \<or> d = 2 \<or> d = 3 \<or> d = 4 \<or> d = 5 \<or> d = 6
      \<or> d = 7 \<or> d = 8 \<or> d = 9"
    by arith
  then show ?thesis by blast
qed

lemma digitValue_digitChar:
  assumes "0 \<le> d" and "d < 10"
  shows "digitValue (digitChar d) = Some d"
  using digit_cases [OF assms] by (auto simp: digitValue_def digitChar_def)

lemma digitChar_not_special:
  assumes "0 \<le> d" and "d < 10"
  shows "digitChar d \<noteq> CHR ''.''" and "digitChar d \<noteq> CHR ''-''"
  using digit_cases [OF assms] by (auto simp: digitChar_def)

lemma parseDigits_append:
  "parseDigits acc (xs @ ys)
     = (case parseDigits acc xs of None \<Rightarrow> None | Some a \<Rightarrow> parseDigits a ys)"
  by (induction xs arbitrary: acc) (auto split: option.splits)

lemma decimal_small: "n < 10 \<Longrightarrow> decimal n = [digitChar n]"
  using decimal.simps [of n] by simp

lemma decimal_large: "\<not> n < 10 \<Longrightarrow> decimal n = decimal (n div 10) @ [digitChar (n mod 10)]"
  using decimal.simps [of n] by simp

lemma decimal_nonempty: "decimal n \<noteq> []"
  by (cases "n < 10") (simp_all add: decimal_small decimal_large)

lemma decimal_chars:
  "0 \<le> n \<Longrightarrow> c \<in> set (decimal n) \<Longrightarrow> c \<noteq> CHR ''.'' \<and> c \<noteq> CHR ''-''"
proof (induction n rule: decimal.induct)
  case (1 n)
  show ?case
  proof (cases "n < 10")
    case True
    with "1.prems" have "c = digitChar n" by (simp add: decimal_small)
    with True "1.prems"(1) digitChar_not_special [of n] show ?thesis by simp
  next
    case False
    with "1.prems" have "c \<in> set (decimal (n div 10)) \<or> c = digitChar (n mod 10)"
      by (auto simp: decimal_large)
    then show ?thesis
    proof
      assume "c \<in> set (decimal (n div 10))"
      with "1.IH" [OF False] "1.prems"(1) show ?thesis by simp
    next
      assume "c = digitChar (n mod 10)"
      with digitChar_not_special [of "n mod 10"] show ?thesis by simp
    qed
  qed
qed

lemma parseDigits_decimal: "0 \<le> n \<Longrightarrow> parseDigits 0 (decimal n) = Some n"
proof (induction n rule: decimal.induct)
  case (1 n)
  show ?case
  proof (cases "n < 10")
    case True
    with "1.prems" show ?thesis
      by (simp add: decimal_small digitValue_digitChar)
  next
    case False
    with "1.IH" "1.prems" have "parseDigits 0 (decimal (n div 10)) = Some (n div 10)" by simp
    moreover have "digitValue (digitChar (n mod 10)) = Some (n mod 10)"
      by (rule digitValue_digitChar) simp_all
    ultimately show ?thesis
      using False by (simp add: decimal_large parseDigits_append)
  qed
qed

lemma unsignedDecimalValue_fixedDigits2:
  assumes "0 \<le> n"
  shows "unsignedDecimalValue (fixedDigits2 n) = Some (of_int n / 100)"
proof -
  let ?ip = "decimal (n div 100)"
  let ?fp = "[digitChar (n div 10 mod 10), digitChar (n mod 10)]"
  have nodot: "\<forall>c \<in> set ?ip. c \<noteq> CHR ''.''"
    using decimal_chars [of "n div 100"] assms by auto
  have tw: "takeWhile (\<lambda>c. c \<noteq> CHR ''.'') (fixedDigits2 n) = ?ip"
    using nodot by (simp add: fixedDigits2_def takeWhile_tail)
  have dw: "dropWhile (\<lambda>c. c \<noteq> CHR ''.'') (fixedDigits2 n) = CHR ''.'' # ?fp"
    using nodot by (simp add: fixedDigits2_def dropWhile_append3)
  have ip: "parseDigits 0 ?ip = Some (n div 100)"
    using assms by (simp add: parseDigits_decimal)
  have d1: "digitValue (digitChar (n div 10 mod 10)) = Some (n div 10 mod 10)"
    and d0: "digitValue (digitChar (n mod 10)) = Some (n mod 10)"
    by (rule digitValue_digitChar, simp, simp)+
  have fp: "parseDigits 0 ?fp = Some ((n div 10 mod 10) * 10 + n mod 10)"
    by (simp add: d1 d0)
  have "(n div 10 mod 10) * 10 + n mod 10 = n mod 100"
    using zmod_zmult2_eq [of 10 n 10] by simp
  with fp have fp': "parseDigits 0 ?fp = Some (n mod 100)" by simp
  have val: "(of_int (n div 100) :: rat) + of_int (n mod 100) / 100 = of_int n / 100"
  proof -
    have "n = (n div 100) * 100 + n mod 100" by simp
    then have "(of_int n :: rat) = of_int ((n div 100) * 100 + n mod 100)" by simp
    then have "(of_int n :: rat) = of_int (n div 100) * 100 + of_int (n mod 100)"
      by (simp only: of_int_add of_int_mult of_int_numeral)
    then show ?thesis by (simp add: field_simps)
  qed
  have "unsignedDecimalValue (fixedDigits2 n)
          = Some (of_int (n div 100) + of_int (n mod 100) / 10 ^ length ?fp)"
    unfolding unsignedDecimalValue_def tw dw
    by (simp only: ip fp' list.case prod.case option.case decimal_nonempty list.distinct
        simp_thms if_False)
  with val show ?thesis by simp
qed

subsection \<open>What toFixed(2) writes\<close>

lemma roundedHundredths_close:
  assumes "0 \<le> a"
  shows "0 \<le> roundedHundredths a"
    and "\<bar>of_int (roundedHundredths a) / 100 - a\<bar> \<le> 1 / 200"
proof -
  let ?k = "\<lfloor>a * 100 + 1 / 2\<rfloor>"
  show "0 \<le> roundedHundredths a"
    using assms by (simp add: roundedHundredths_def)
  have lo: "of_int ?k \<le> a * 100 + 1 / 2" by (rule of_int_floor_le)
  have hi: "a * 100 + 1 / 2 < of_int ?k + 1" by linarith
  have "\<bar>of_int ?k / 100 - a\<bar> \<le> 1 / 200"
    using lo hi by linarith
  then show "\<bar>of_int (roundedHundredths a) / 100 - a\<bar> \<le> 1 / 200"
    by (simp only: roundedHundredths_def)
qed

lemma fixedDigits2_no_sign:
  assumes "0 \<le> n"
  shows "fixedDigits2 n \<noteq> [] \<and> hd (fixedDigits2 n) \<noteq> CHR ''-''"
proof -
  have ne: "decimal (n div 100) \<noteq> []" by (rule decimal_nonempty)
  then have "hd (fixedDigits2 n) = hd (decimal (n div 100))"
    by (simp add: fixedDigits2_def)
  moreover have "hd (decimal (n div 100)) \<in> set (decimal (n div 100))"
    using ne by simp
  ultimately have "hd (fixedDigits2 n) \<noteq> CHR ''-''"
    using decimal_chars [of "n div 100"] assms by simp
  with ne show ?thesis by (simp add: fixedDigits2_def)
qed

lemma decimalValue_signedFixed:
  assumes "\<bar>x\<bar> < 10 ^ 21"
  shows "decimalValue (signedFixed x)
           = Some ((if x < 0 then - 1 else 1) * (of_int (roundedHundredths \<bar>x\<bar>) / 100))"
proof -
  define n where "n = roundedHundredths \<bar>x\<bar>"
  have n: "0 \<le> n" unfolding n_def by (rule roundedHundredths_close) simp
  have body: "fixedOrExponent \<bar>x\<bar> = fixedDigits2 n"
    using assms by (simp add: fixedOrExponent_def n_def)
  have full: "signedFixed x = (if x < 0 then ''-'' else []) @ fixedDigits2 n"
    by (simp only: signedFixed_def body)
  note parsed = unsignedDecimalValue_fixedDigits2 [OF n]
  have "decimalValue (signedFixed x) = Some ((if x < 0 then - 1 else 1) * (of_int n / 100))"
  proof (cases "x < 0")
    case True
    with full have "signedFixed x = CHR ''-'' # fixedDigits2 n"
      by (simp only: if_True append_Cons append_Nil)
    with True show ?thesis
      by (simp add: decimalValue_def parsed)
  next
    case False
    with full have s: "signedFixed x = fixedDigits2 n"
      by (simp only: if_False append_Nil)
    with False fixedDigits2_no_sign [OF n] show ?thesis
      by (simp add: decimalValue_def parsed)
  qed
  then show ?thesis by (simp only: n_def)
qed

lemma toFixed2_finite:
  assumes "isFiniteNumber v"
  shows "toFixed2 v = signedFixed (mathValue v)"
  using assms by (cases v) (simp_all add: toFixed2_def)

lemma decimalValue_toFixed2:
  assumes "isFiniteNumber v" and "\<bar>mathValue v\<bar> < 10 ^ 21"
  shows "decimalValue (toFixed2 v)
           = Some ((if mathValue v < 0 then - 1 else 1)
                     * (of_int (roundedHundredths \<bar>mathValue v\<bar>) / 100))"
    and "\<bar>(if mathValue v < 0 then - 1 else 1)
             * (of_int (roundedHundredths \<bar>mathValue v\<bar>) / 100) - mathValue v\<bar> \<le> 1 / 200"
proof -
  show "decimalValue (toFixed2 v)
           = Some ((if mathValue v < 0 then - 1 else 1)
                     * (of_int (roundedHundredths \<bar>mathValue v\<bar>) / 100))"
    using decimalValue_signedFixed [OF assms(2)] toFixed2_finite [OF assms(1)] by simp
  have c: "\<bar>of_int (roundedHundredths \<bar>mathValue v\<bar>) / 100 - \<bar>mathValue v\<bar>\<bar> \<le> 1 / 200"
    by (rule roundedHundredths_close) simp
  show "\<bar>(if mathValue v < 0 then - 1 else 1)
             * (of_int (roundedHundredths \<bar>mathValue v\<bar>) / 100) - mathValue v\<bar> \<le> 1 / 200"
  proof (cases "mathValue v < 0")
    case True
    with c show ?thesis by (simp add: abs_if split: if_splits)
  next
    case False
    with c show ?thesis by (simp add: abs_if split: if_splits)
  qed
qed

lemma toFixed2_not_finite:
  "toFixed2 NaN = ''NaN''" "toFixed2 PosInfinity = ''Infinity''"
  "toFixed2 NegInfinity = ''-Infinity''"
  by (simp_all add: toFixed2_def)

lemma toFixed2_large:
  assumes "isFiniteNumber v" and "10 ^ 21 \<le> \<bar>mathValue v\<bar>"
  shows "toFixed2 v = (if mathValue v < 0 then ''-'' else []) @ largeNumberToString \<bar>mathValue v\<bar>"
  using assms toFixed2_finite [OF assms(1)] by (simp add: signedFixed_def fixedOrExponent_def)

subsection \<open>The rounding error of a double\<close>

lemma pow2_of_nat_power: "0 \<le> k \<Longrightarrow> (2::rat) powi k = 2 ^ nat k"
  by (simp add: power_int_def)

lemma int_bitlen_bounds_rat:
  assumes "0 < x"
  shows "(2::rat) powi (bitlen x - 1) \<le> of_int x" and "of_int x < (2::rat) powi (bitlen x)"
proof -
  from bitlen_bounds [OF assms]
  have lo: "2 ^ nat (bitlen x - 1) \<le> x" and hi: "x < 2 ^ nat (bitlen x)" by simp_all
  from assms have b1: "1 \<le> bitlen x"
    by (metis bitlen_eq_zero_iff bitlen_nonneg int_one_le_iff_zero_less order_le_less not_less)
  from lo have "(of_int (2 ^ nat (bitlen x - 1)) :: rat) \<le> of_int x"
    by (simp only: of_int_le_iff)
  then show "(2::rat) powi (bitlen x - 1) \<le> of_int x"
    using b1 by (simp add: pow2_of_nat_power)
  from hi have "(of_int x :: rat) < of_int (2 ^ nat (bitlen x))"
    by (simp only: of_int_less_iff)
  then show "of_int x < (2::rat) powi (bitlen x)"
    using b1 by (simp add: pow2_of_nat_power)
qed

lemma floorLog2_bounds:
  assumes "0 < a"
  shows "2 powi (floorLog2 a) \<le> a" and "a < 2 powi (floorLog2 a + 1)"
proof -
  obtain p q where pq: "quotient_of a = (p, q)" by (cases "quotient_of a")
  have q: "0 < q" using quotient_of_denom_pos [OF pq] .
  have a: "a = of_int p / of_int q" using quotient_of_div [OF pq] .
  have p: "0 < p"
  proof (rule ccontr)
    assume "\<not> 0 < p"
    then have "(of_int p :: rat) \<le> 0" by simp
    with q have "(of_int p :: rat) / of_int q \<le> 0" by (simp add: divide_nonpos_pos)
    with a assms show False by simp
  qed
  define d where "d = bitlen p - bitlen q"
  note bp = int_bitlen_bounds_rat [OF p]
  note bq = int_bitlen_bounds_rat [OF q]
  have qpos: "(0::rat) < of_int q" using q by simp
  have upper: "a < 2 powi (d + 1)"
  proof -
    have "a * of_int q = of_int p" using a qpos by simp
    also have "\<dots> < (2::rat) powi (bitlen p)" by (rule bp(2))
    also have "\<dots> = 2 powi (d + 1) * 2 powi (bitlen q - 1)"
      by (simp add: d_def flip: power_int_add)
    also have "\<dots> \<le> 2 powi (d + 1) * of_int q"
      using bq(1) by (simp add: mult_left_mono)
    finally show ?thesis using qpos by simp
  qed
  have lower: "2 powi (d - 1) < a"
  proof -
    have "(2::rat) powi (d - 1) * of_int q < 2 powi (d - 1) * 2 powi (bitlen q)"
      using bq(2) by (simp add: mult_strict_left_mono)
    also have "\<dots> = 2 powi (bitlen p - 1)"
      by (simp add: d_def flip: power_int_add)
    also have "\<dots> \<le> of_int p" by (rule bp(1))
    also have "\<dots> = a * of_int q" using a qpos by simp
    finally show ?thesis using qpos by simp
  qed
  have fl: "floorLog2 a = (if 2 powi d \<le> a then d else d - 1)"
    by (simp add: floorLog2_def lowerLog2_def pq d_def)
  show "2 powi (floorLog2 a) \<le> a"
    using lower by (simp add: fl)
  show "a < 2 powi (floorLog2 a + 1)"
    using upper by (simp add: fl)
qed

lemma roundHalfEven_close: "\<bar>of_int (roundHalfEven t) - t\<bar> \<le> 1 / 2"
proof -
  define f where "f = \<lfloor>t\<rfloor>"
  have lo: "of_int f \<le> t" unfolding f_def by (rule of_int_floor_le)
  have hi: "t < of_int f + 1" unfolding f_def by linarith
  have r: "roundHalfEven t = tieToEven t f"
    by (simp add: roundHalfEven_def f_def)
  consider "t - of_int f < 1 / 2" | "t - of_int f > 1 / 2" | "t - of_int f = 1 / 2"
    by linarith
  then show ?thesis
  proof cases
    case 1
    then have "tieToEven t f = f" by (simp add: tieToEven_def)
    with 1 lo r show ?thesis by simp
  next
    case 2
    then have "tieToEven t f = f + 1" by (simp add: tieToEven_def)
    with 2 hi r show ?thesis by simp
  next
    case 3
    then have "tieToEven t f = f \<or> tieToEven t f = f + 1" by (simp add: tieToEven_def)
    with 3 r show ?thesis by auto
  qed
qed

lemma roundNumber_close:
  assumes "roundNumber r = Finite q" and "2 powi (- 1022) \<le> \<bar>r\<bar>"
  shows "\<bar>q - r\<bar> \<le> \<bar>r\<bar> / 2 ^ 53"
proof -
  define a where "a = \<bar>r\<bar>"
  define e where "e = floorLog2 a"
  define u where "u = (2::rat) powi (e - 52)"
  define n where "n = roundHalfEven (a / u)"
  have "(0::rat) < 2 powi (- 1022)" by simp
  with assms(2) have apos: "0 < a" unfolding a_def by linarith
  then have r0: "r \<noteq> 0" unfolding a_def by auto
  note b = floorLog2_bounds [OF apos, folded e_def]
  have e: "- 1022 \<le> e"
  proof (rule ccontr)
    assume "\<not> - 1022 \<le> e"
    then have "e + 1 \<le> - 1022" by simp
    then have "(2::rat) powi (e + 1) \<le> 2 powi (- 1022)"
      by (intro power_int_increasing) simp_all
    with b(2) assms(2) show False unfolding a_def by linarith
  qed
  have upos: "0 < u" unfolding u_def by simp
  have qu: "quantum e = u"
    using e by (simp add: quantum_def u_def max_def)
  have ue: "u * 2 ^ 52 = 2 powi e"
  proof -
    have "(2::rat) powi e = 2 powi ((e - 52) + 52)" by simp
    also have "\<dots> = 2 powi (e - 52) * 2 powi 52"
      by (rule power_int_add) simp
    finally show ?thesis by (simp add: u_def)
  qed
  have big: "2 ^ 52 \<le> a / u"
  proof -
    have "u * 2 ^ 52 \<le> a" using b(1) ue by simp
    then show ?thesis using upos by (simp add: pos_le_divide_eq mult.commute)
  qed
  have close: "\<bar>of_int n - a / u\<bar> \<le> 1 / 2"
    unfolding n_def by (rule roundHalfEven_close)
  have npos: "n \<noteq> 0"
  proof
    assume "n = 0"
    with close have "\<bar>a / u\<bar> \<le> 1 / 2" by simp
    then have "a / u \<le> 1 / 2" by linarith
    with big show False by simp
  qed
  have rn: "roundNumber r = packNumber (r < 0) e n"
    using r0 by (simp add: roundNumber_def roundWithExponent_def a_def e_def n_def qu [unfolded e_def a_def] u_def)
  have q: "q = (if r < 0 then - 1 else 1) * (of_int n * u)"
    using assms(1) npos unfolding rn packNumber_def qu
    by (auto simp: signedInfinity_def split: if_splits)
  have "\<bar>q - r\<bar> = \<bar>of_int n * u - a\<bar>"
  proof (cases "r < 0")
    case True
    then have "q - r = - (of_int n * u - a)" by (simp add: q a_def)
    then show ?thesis by (simp only: abs_minus_cancel)
  next
    case False
    then have "q - r = of_int n * u - a" by (simp add: q a_def)
    then show ?thesis by simp
  qed
  also have "\<dots> = u * \<bar>of_int n - a / u\<bar>"
  proof -
    have "of_int n * u - a = u * (of_int n - a / u)"
      using upos by (simp add: field_simps)
    then show ?thesis using upos by (simp add: abs_mult)
  qed
  also have "\<dots> \<le> u * (1 / 2)"
    using close upos by (intro mult_left_mono) simp_all
  also have "\<dots> = 2 powi e / 2 ^ 53"
    using ue by (simp add: field_simps)
  also have "\<dots> \<le> a / 2 ^ 53"
    using b(1) by (simp add: divide_right_mono)
  finally show ?thesis by (simp add: a_def)
qed

lemma jsDiv_finite:
  assumes "p \<noteq> 0" and "c \<noteq> 0"
  shows "jsDiv (Finite p) (Finite c) = roundNumber (p / c)"
  using assms by (simp add: jsDiv_def)

subsection \<open>Pixels to meters\<close>

lemma scale_CONFIG: "scale simpleGeometry = Finite 40" "scale chartingGeometry = Finite 40"
  by code_simp+

lemma pixelsToMeters_inner_corner:
  "pixelsToMeters simpleGeometry (Finite 120) (Finite 120)
     = \<lparr> meters_x = ''3.00'', meters_y = ''0.00'' \<rparr>"
  "pixelsToMeters chartingGeometry (Finite 120) (Finite 120)
     = \<lparr> meters_x = ''3.00'', meters_y = ''0.00'' \<rparr>"
  by code_simp+

lemma pixelsToMeters_three:
  "jsDiv (Finite 3) (scale simpleGeometry) = Finite (5404319552844595 / 2 ^ 56)"
  "jsSub (jsDiv (Finite 3) (scale simpleGeometry)) (Finite 3)
     = Finite (- (3293257227514675 / 2 ^ 50))"
  "pixelsToMeters simpleGeometry (Finite 3) (Finite 3)
     = \<lparr> meters_x = ''0.07'', meters_y = ''-2.92'' \<rparr>"
  by code_simp+

lemma pixelsToMeters_zero_scale:
  "scale zeroScaleGeometry = Finite 0"
  "pixelsToMeters zeroScaleGeometry (Finite 5) (Finite 0)
     = \<lparr> meters_x = ''Infinity'', meters_y = ''NaN'' \<rparr>"
  by code_simp+

lemma pixelsToMeters_exponent:
  "pixelsToMeters simpleGeometry (Finite (4 * 10 ^ 22)) (Finite 0)
     = \<lparr> meters_x = ''1e+21'', meters_y = ''-3.00'' \<rparr>"
  by code_simp

lemma toFixed2_string_of_infinite:
  assumes "\<not> isFiniteNumber v"
  shows "toFixed2 v \<in> {''NaN'', ''Infinity'', ''-Infinity''}"
  using assms by (cases v) (simp_all add: toFixed2_def)

text \<open>
  Claim C8, as the code has it. For all numbers \<open>px\<close> and \<open>py\<close>,
  \<^verbatim>\<open>pixelsToMeters(px, py)\<close> returns two strings, \<^verbatim>\<open>(px / scale).toFixed(2)\<close> and
  \<^verbatim>\<open>(py / scale - 3).toFixed(2)\<close>, where \<open>scale\<close> is the double
  \<open>canvasSize / gridSize\<close> whatever the mode and \<^verbatim>\<open>/\<close> and \<^verbatim>\<open>-\<close> are the operations on
  doubles. When the double is finite and below \<open>10^21\<close> in absolute value, the string
  reads as a decimal number: the hundredths nearest to the double, away from zero on a
  tie, so within \<open>0.005\<close> of it. When the double is not finite the string is
  \<^verbatim>\<open>NaN\<close>, \<^verbatim>\<open>Infinity\<close> or \<^verbatim>\<open>-Infinity\<close>, and from \<open>10^21\<close> on it is the exponent
  notation of the double. The double quotient of finite non-zero \<open>px\<close> and \<open>scale\<close>,
  when finite and not below \<open>2^-1022\<close> in absolute value, is within the relative error
  \<open>2^-53\<close> of the exact quotient. With the shipped canvas size 600 and grid size 15
  the scale is 40 in both modes and \<^verbatim>\<open>pixelsToMeters(120, 120)\<close> is
  \<^verbatim>\<open>{x: "3.00", y: "0.00"}\<close>.
\<close>

theorem pixelsToMeters_rounded:
  "scale g = jsDiv (Finite (grid_canvasSize (geo_config g))) (Finite (grid_size (geo_config g)))
   \<and> scale (g\<lparr>geo_mode := m\<rparr>) = scale g
   \<and> pixelsToMeters (g\<lparr>geo_mode := m\<rparr>) px py = pixelsToMeters g px py
   \<and> meters_x (pixelsToMeters g px py) = toFixed2 (jsDiv px (scale g))
   \<and> meters_y (pixelsToMeters g px py) = toFixed2 (jsSub (jsDiv py (scale g)) (Finite 3))
   \<and> (isFiniteNumber (jsDiv px (scale g)) \<and> \<bar>mathValue (jsDiv px (scale g))\<bar> < 10 ^ 21 \<longrightarrow>
        (\<exists>d. decimalValue (meters_x (pixelsToMeters g px py)) = Some d
           \<and> d = (if mathValue (jsDiv px (scale g)) < 0 then - 1 else 1)
                   * (of_int (roundedHundredths \<bar>mathValue (jsDiv px (scale g))\<bar>) / 100)
           \<and> \<bar>d - mathValue (jsDiv px (scale g))\<bar> \<le> 1 / 200))
   \<and> (isFiniteNumber (jsSub (jsDiv py (scale g)) (Finite 3))
        \<and> \<bar>mathValue (jsSub (jsDiv py (scale g)) (Finite 3))\<bar> < 10 ^ 21 \<longrightarrow>
        (\<exists>d. decimalValue (meters_y (pixelsToMeters g px py)) = Some d
           \<and> d = (if mathValue (jsSub (jsDiv py (scale g)) (Finite 3)) < 0 then - 1 else 1)
                   * (of_int (roundedHundredths \<bar>mathValue (jsSub (jsDiv py (scale g)) (Finite 3))\<bar>)
                      / 100)
           \<and> \<bar>d - mathValue (jsSub (jsDiv py (scale g)) (Finite 3))\<bar> \<le> 1 / 200))
   \<and> (\<not> isFiniteNumber (jsDiv px (scale g)) \<longrightarrow>
        meters_x (pixelsToMeters g px py) \<in> {''NaN'', ''Infinity'', ''-Infinity''})
   \<and> (\<not> isFiniteNumber (jsSub (jsDiv py (scale g)) (Finite 3)) \<longrightarrow>
        meters_y (pixelsToMeters g px py) \<in> {''NaN'', ''Infinity'', ''-Infinity''})
   \<and> (isFiniteNumber (jsDiv px (scale g)) \<and> 10 ^ 21 \<le> \<bar>mathValue (jsDiv px (scale g))\<bar> \<longrightarrow>
        meters_x (pixelsToMeters g px py)
          = (if mathValue (jsDiv px (scale g)) < 0 then ''-'' else [])
            @ largeNumberToString \<bar>mathValue (jsDiv px (scale g))\<bar>)
   \<and> (isFiniteNumber (jsSub (jsDiv py (scale g)) (Finite 3))
        \<and> 10 ^ 21 \<le> \<bar>mathValue (jsSub (jsDiv py (scale g)) (Finite 3))\<bar> \<longrightarrow>
        meters_y (pixelsToMeters g px py)
          = (if mathValue (jsSub (jsDiv py (scale g)) (Finite 3)) < 0 then ''-'' else [])
            @ largeNumberToString \<bar>mathValue (jsSub (jsDiv py (scale g)) (Finite 3))\<bar>)
   \<and> (px = Finite p \<and> scale g = Finite c \<and> p \<noteq> 0 \<and> c \<noteq> 0
        \<and> jsDiv px (scale g) = Finite q \<and> 2 powi (- 1022) \<le> \<bar>p / c\<bar> \<longrightarrow>
        \<bar>q - p / c\<bar> \<le> \<bar>p / c\<bar> / 2 ^ 53)
   \<and> scale simpleGeometry = Finite 40 \<and> scale chartingGeometry = Finite 40
   \<and> pixelsToMeters simpleGeometry (Finite 120) (Finite 120)
        = \<lparr> meters_x = ''3.00'', meters_y = ''0.00'' \<rparr>
   \<and> pixelsToMeters chartingGeometry (Finite 120) (Finite 120)
        = \<lparr> meters_x = ''3.00'', meters_y = ''0.00'' \<rparr>"
proof -
  let ?qx = "jsDiv px (scale g)"
  let ?qy = "jsSub (jsDiv py (scale g)) (Finite 3)"
  have s1: "scale g
      = jsDiv (Finite (grid_canvasSize (geo_config g))) (Finite (grid_size (geo_config g)))"
    and s2: "scale (g\<lparr>geo_mode := m\<rparr>) = scale g"
    by (simp_all add: scale_def)
  have s3: "pixelsToMeters (g\<lparr>geo_mode := m\<rparr>) px py = pixelsToMeters g px py"
    by (simp add: pixelsToMeters_def s2)
  have mx: "meters_x (pixelsToMeters g px py) = toFixed2 ?qx"
    and my: "meters_y (pixelsToMeters g px py) = toFixed2 ?qy"
    by (simp_all add: pixelsToMeters_def)
  have fx: "isFiniteNumber ?qx \<and> \<bar>mathValue ?qx\<bar> < 10 ^ 21 \<longrightarrow>
        (\<exists>d. decimalValue (meters_x (pixelsToMeters g px py)) = Some d
           \<and> d = (if mathValue ?qx < 0 then - 1 else 1)
                   * (of_int (roundedHundredths \<bar>mathValue ?qx\<bar>) / 100)
           \<and> \<bar>d - mathValue ?qx\<bar> \<le> 1 / 200)"
    unfolding mx using decimalValue_toFixed2 [of ?qx] by blast
  have fy: "isFiniteNumber ?qy \<and> \<bar>mathValue ?qy\<bar> < 10 ^ 21 \<longrightarrow>
        (\<exists>d. decimalValue (meters_y (pixelsToMeters g px py)) = Some d
           \<and> d = (if mathValue ?qy < 0 then - 1 else 1)
                   * (of_int (roundedHundredths \<bar>mathValue ?qy\<bar>) / 100)
           \<and> \<bar>d - mathValue ?qy\<bar> \<le> 1 / 200)"
    unfolding my using decimalValue_toFixed2 [of ?qy] by blast
  have ix: "\<not> isFiniteNumber ?qx \<longrightarrow>
        meters_x (pixelsToMeters g px py) \<in> {''NaN'', ''Infinity'', ''-Infinity''}"
    unfolding mx using toFixed2_string_of_infinite [of ?qx] by blast
  have iy: "\<not> isFiniteNumber ?qy \<longrightarrow>
        meters_y (pixelsToMeters g px py) \<in> {''NaN'', ''Infinity'', ''-Infinity''}"
    unfolding my using toFixed2_string_of_infinite [of ?qy] by blast
  have lx: "isFiniteNumber ?qx \<and> 10 ^ 21 \<le> \<bar>mathValue ?qx\<bar> \<longrightarrow>
        meters_x (pixelsToMeters g px py)
          = (if mathValue ?qx < 0 then ''-'' else []) @ largeNumberToString \<bar>mathValue ?qx\<bar>"
    unfolding mx using toFixed2_large [of ?qx] by blast
  have ly: "isFiniteNumber ?qy \<and> 10 ^ 21 \<le> \<bar>mathValue ?qy\<bar> \<longrightarrow>
        meters_y (pixelsToMeters g px py)
          = (if mathValue ?qy < 0 then ''-'' else []) @ largeNumberToString \<bar>mathValue ?qy\<bar>"
    unfolding my using toFixed2_large [of ?qy] by blast
  have er: "px = Finite p \<and> scale g = Finite c \<and> p \<noteq> 0 \<and> c \<noteq> 0
        \<and> jsDiv px (scale g) = Finite q \<and> 2 powi (- 1022) \<le> \<bar>p / c\<bar> \<longrightarrow>
        \<bar>q - p / c\<bar> \<le> \<bar>p / c\<bar> / 2 ^ 53"
  proof (intro impI, elim conjE)
    assume h: "px = Finite p" "scale g = Finite c" "p \<noteq> 0" "c \<noteq> 0"
      "jsDiv px (scale g) = Finite q" "2 powi (- 1022) \<le> \<bar>p / c\<bar>"
    from h(1,2,5) jsDiv_finite [OF h(3,4)] have "roundNumber (p / c) = Finite q" by simp
    from roundNumber_close [OF this h(6)] show "\<bar>q - p / c\<bar> \<le> \<bar>p / c\<bar> / 2 ^ 53" .
  qed
  from s1 s2 s3 mx my fx fy ix iy lx ly er scale_CONFIG pixelsToMeters_inner_corner
  show ?thesis by (intro conjI)
qed

theorem pixelsToMeters_rounded_witness:
  "isFiniteNumber (jsDiv (Finite 3) (scale simpleGeometry))
   \<and> \<bar>mathValue (jsDiv (Finite 3) (scale simpleGeometry))\<bar> < 10 ^ 21
   \<and> isFiniteNumber (jsSub (jsDiv (Finite 3) (scale simpleGeometry)) (Finite 3))
   \<and> \<bar>mathValue (jsSub (jsDiv (Finite 3) (scale simpleGeometry)) (Finite 3))\<bar> < 10 ^ 21
   \<and> pixelsToMeters simpleGeometry (Finite 3) (Finite 3)
        = \<lparr> meters_x = ''0.07'', meters_y = ''-2.92'' \<rparr>
   \<and> pixelsToMeters (simpleGeometry\<lparr>geo_mode := ''heatmapCharting''\<rparr>) (Finite 3) (Finite 3)
        = \<lparr> meters_x = ''0.07'', meters_y = ''-2.92'' \<rparr>
   \<and> decimalValue ''0.07'' = Some (7 / 100)
   \<and> \<bar>7 / 100 - mathValue (jsDiv (Finite 3) (scale simpleGeometry))\<bar> \<le> 1 / 200
   \<and> decimalValue ''-2.92'' = Some (- (292 / 100))
   \<and> \<bar>- (292 / 100) - mathValue (jsSub (jsDiv (Finite 3) (scale simpleGeometry)) (Finite 3))\<bar>
        \<le> 1 / 200
   \<and> (3 :: rat) \<noteq> 0 \<and> (40 :: rat) \<noteq> 0 \<and> 2 powi (- 1022) \<le> \<bar>(3 :: rat) / 40\<bar>
   \<and> \<bar>5404319552844595 / 2 ^ 56 - (3 :: rat) / 40\<bar> \<le> \<bar>3 / 40\<bar> / 2 ^ 53
   \<and> \<not> isFiniteNumber (jsDiv (Finite 5) (scale zeroScaleGeometry))
   \<and> \<not> isFiniteNumber (jsSub (jsDiv (Finite 0) (scale zeroScaleGeometry)) (Finite 3))
   \<and> meters_x (pixelsToMeters zeroScaleGeometry (Finite 5) (Finite 0))
        \<in> {''NaN'', ''Infinity'', ''-Infinity''}
   \<and> meters_y (pixelsToMeters zeroScaleGeometry (Finite 5) (Finite 0))
        \<in> {''NaN'', ''Infinity'', ''-Infinity''}
   \<and> pixelsToMeters zeroScaleGeometry (Finite 5) (Finite 0)
        = \<lparr> meters_x = ''Infinity'', meters_y = ''NaN'' \<rparr>
   \<and> isFiniteNumber (jsDiv (Finite (4 * 10 ^ 22)) (scale simpleGeometry))
   \<and> 10 ^ 21 \<le> \<bar>mathValue (jsDiv (Finite (4 * 10 ^ 22)) (scale simpleGeometry))\<bar>
   \<and> largeNumberToString \<bar>mathValue (jsDiv (Finite (4 * 10 ^ 22)) (scale simpleGeometry))\<bar>
        = ''1e+21''
   \<and> meters_x (pixelsToMeters simpleGeometry (Finite (4 * 10 ^ 22)) (Finite 0)) = ''1e+21''"
proof -
  note x3 = pixelsToMeters_three(1)
  note y3 = pixelsToMeters_three(2)
  note s3 = pixelsToMeters_three(3)
  have h1: "isFiniteNumber (jsDiv (Finite 3) (scale simpleGeometry))"
    and h2: "\<bar>mathValue (jsDiv (Finite 3) (scale simpleGeometry))\<bar> < 10 ^ 21"
    by (simp_all add: x3)
  have h3: "isFiniteNumber (jsSub (jsDiv (Finite 3) (scale simpleGeometry)) (Finite 3))"
    and h4: "\<bar>mathValue (jsSub (jsDiv (Finite 3) (scale simpleGeometry)) (Finite 3))\<bar> < 10 ^ 21"
    by (simp_all add: y3)
  have h5: "(3 :: rat) \<noteq> 0" "(40 :: rat) \<noteq> 0" "2 powi (- 1022) \<le> \<bar>(3 :: rat) / 40\<bar>"
  proof -
    have "(2 :: rat) powi (- 1022) \<le> 2 powi (- 4)"
      by (intro power_int_increasing) simp_all
    also have "\<dots> \<le> \<bar>(3 :: rat) / 40\<bar>" by (simp add: power_int_minus)
    finally show "2 powi (- 1022) \<le> \<bar>(3 :: rat) / 40\<bar>" .
  qed simp_all
  note t = pixelsToMeters_rounded [of simpleGeometry "''heatmapCharting''" "Finite 3" "Finite 3"
      3 40 "5404319552844595 / 2 ^ 56"]
  from t have mode: "pixelsToMeters (simpleGeometry\<lparr>geo_mode := ''heatmapCharting''\<rparr>)
        (Finite 3) (Finite 3) = pixelsToMeters simpleGeometry (Finite 3) (Finite 3)"
    by blast
  then have mode': "pixelsToMeters (simpleGeometry\<lparr>geo_mode := ''heatmapCharting''\<rparr>)
        (Finite 3) (Finite 3) = \<lparr> meters_x = ''0.07'', meters_y = ''-2.92'' \<rparr>"
    by (simp only: s3)
  from t h1 h2 obtain d
    where d: "decimalValue (meters_x (pixelsToMeters simpleGeometry (Finite 3) (Finite 3))) = Some d"
      "\<bar>d - mathValue (jsDiv (Finite 3) (scale simpleGeometry))\<bar> \<le> 1 / 200"
    by blast
  have px: "decimalValue ''0.07'' = Some (7 / 100)" by code_simp
  from d(1) have "decimalValue ''0.07'' = Some d" by (simp only: s3 Meters.simps)
  with px have "d = 7 / 100" by simp
  with d(2) have cx: "\<bar>7 / 100 - mathValue (jsDiv (Finite 3) (scale simpleGeometry))\<bar> \<le> 1 / 200"
    by simp
  from t h3 h4 obtain d'
    where d': "decimalValue (meters_y (pixelsToMeters simpleGeometry (Finite 3) (Finite 3))) = Some d'"
      "\<bar>d' - mathValue (jsSub (jsDiv (Finite 3) (scale simpleGeometry)) (Finite 3))\<bar> \<le> 1 / 200"
    by blast
  have py: "decimalValue ''-2.92'' = Some (- (292 / 100))" by code_simp
  from d'(1) have "decimalValue ''-2.92'' = Some d'" by (simp only: s3 Meters.simps)
  with py have "d' = - (292 / 100)" by simp
  with d'(2) have cy: "\<bar>- (292 / 100)
        - mathValue (jsSub (jsDiv (Finite 3) (scale simpleGeometry)) (Finite 3))\<bar> \<le> 1 / 200"
    by simp
  have er: "\<bar>5404319552844595 / 2 ^ 56 - (3 :: rat) / 40\<bar> \<le> \<bar>3 / 40\<bar> / 2 ^ 53"
    using t h5 x3 scale_CONFIG(1) by blast
  note z = pixelsToMeters_rounded [of zeroScaleGeometry "''simpleHeatmap''" "Finite 5" "Finite 0"]
  have "jsDiv (Finite 5) (scale zeroScaleGeometry) = PosInfinity" by code_simp
  then have nx: "\<not> isFiniteNumber (jsDiv (Finite 5) (scale zeroScaleGeometry))" by simp
  have "jsSub (jsDiv (Finite 0) (scale zeroScaleGeometry)) (Finite 3) = NaN" by code_simp
  then have ny: "\<not> isFiniteNumber (jsSub (jsDiv (Finite 0) (scale zeroScaleGeometry)) (Finite 3))"
    by simp
  from z nx have zx: "meters_x (pixelsToMeters zeroScaleGeometry (Finite 5) (Finite 0))
        \<in> {''NaN'', ''Infinity'', ''-Infinity''}"
    by blast
  from z ny have zy: "meters_y (pixelsToMeters zeroScaleGeometry (Finite 5) (Finite 0))
        \<in> {''NaN'', ''Infinity'', ''-Infinity''}"
    by blast
  note zs = pixelsToMeters_zero_scale(2)
  note b = pixelsToMeters_rounded [of simpleGeometry "''simpleHeatmap''" "Finite (4 * 10 ^ 22)"
      "Finite 0"]
  have bq: "jsDiv (Finite (4 * 10 ^ 22)) (scale simpleGeometry) = Finite (10 ^ 21)" by code_simp
  have bf: "isFiniteNumber (jsDiv (Finite (4 * 10 ^ 22)) (scale simpleGeometry))"
    and big: "10 ^ 21 \<le> \<bar>mathValue (jsDiv (Finite (4 * 10 ^ 22)) (scale simpleGeometry))\<bar>"
    by (simp_all only: bq isFiniteNumber.simps mathValue.simps)
  have bs: "meters_x (pixelsToMeters simpleGeometry (Finite (4 * 10 ^ 22)) (Finite 0)) = ''1e+21''"
    by (simp only: pixelsToMeters_exponent Meters.simps)
  from b bf big have "meters_x (pixelsToMeters simpleGeometry (Finite (4 * 10 ^ 22)) (Finite 0))
      = (if mathValue (jsDiv (Finite (4 * 10 ^ 22)) (scale simpleGeometry)) < 0 then ''-'' else [])
        @ largeNumberToString \<bar>mathValue (jsDiv (Finite (4 * 10 ^ 22)) (scale simpleGeometry))\<bar>"
    by blast
  also have "(if mathValue (jsDiv (Finite (4 * 10 ^ 22)) (scale simpleGeometry)) < 0 then ''-'' else [])
      = []"
    by (simp only: bq mathValue.simps) simp
  finally have bl: "largeNumberToString
        \<bar>mathValue (jsDiv (Finite (4 * 10 ^ 22)) (scale simpleGeometry))\<bar> = ''1e+21''"
    by (simp only: bs append_Nil)
  from h1 h2 h3 h4 s3 mode' px cx py cy h5 er nx ny zx zy zs bf big bl bs show ?thesis
    by (intro conjI)
qed

text \<open>
  The returned \<open>x\<close> is not \<open>px / scale\<close> itself: at \<open>px = 5\<close> the quotient is the
  double \<open>0.125\<close>, exactly, and the string is \<^verbatim>\<open>"0.13"\<close>.
\<close>

theorem pixelsToMeters_not_exact:
  "pixelsToMeters simpleGeometry (Finite 5) (Finite 0)
     = \<lparr> meters_x = ''0.13'', meters_y = ''-3.00'' \<rparr>
   \<and> jsDiv (Finite 5) (scale simpleGeometry) = Finite (125 / 1000)
   \<and> decimalValue ''0.13'' = Some (13 / 100)
   \<and> (13 :: rat) / 100 \<noteq> 125 / 1000"
proof -
  have a: "pixelsToMeters simpleGeometry (Finite 5) (Finite 0)
     = \<lparr> meters_x = ''0.13'', meters_y = ''-3.00'' \<rparr>"
    by code_simp
  have b: "jsDiv (Finite 5) (scale simpleGeometry) = Finite (125 / 1000)"
    by code_simp
  have c: "decimalValue ''0.13'' = Some (13 / 100)"
    by code_simp
  from a b c show ?thesis by simp
qed

section \<open>Selecting the current rotation\<close>

lemma handleRotationClick_keeps_filters:
  "activeRotationFilters app \<subseteq> activeRotationFilters (handleRotationClick button app)"
  by (auto simp: handleRotationClick_def Let_def split: option.splits)

text \<open>
  Claim C3. When a rotation button is clicked in an editable session with rotation
  tracking on, the clicked rotation \<open>r\<close> becomes the current rotation, and if at least
  one rotation filter is active the filter set becomes the old set with \<open>r\<close> inserted:
  nothing is removed, and an \<open>r\<close> that is already in the set leaves it unchanged. So
  the filters \<open>{2}\<close> become \<open>{2, 4}\<close> when 4 is selected, and \<open>{2, 4}\<close> stay
  \<open>{2, 4}\<close>. No call of the handler, whatever the click, removes a filter.
\<close>

theorem rotation_click_sticky_add:
  assumes "\<not> isViewOnly (state app)" and "trackRotation app"
    and "activeRotationFilters app \<noteq> {}"
  shows "currentRotation (handleRotationClick (Some r) app) = r
         \<and> activeRotationFilters (handleRotationClick (Some r) app)
               = insert r (activeRotationFilters app)
         \<and> r \<in> activeRotationFilters (handleRotationClick (Some r) app)
         \<and> activeRotationFilters app \<subseteq> activeRotationFilters (handleRotationClick (Some r) app)
         \<and> (activeRotationFilters app = {2} \<longrightarrow>
               activeRotationFilters (handleRotationClick (Some 4) app) = {2, 4})
         \<and> (activeRotationFilters app = {2, 4} \<longrightarrow>
               activeRotationFilters (handleRotationClick (Some 4) app) = {2, 4})
         \<and> (\<forall>button other. activeRotationFilters other
               \<subseteq> activeRotationFilters (handleRotationClick button other))"
  using assms handleRotationClick_keeps_filters
  by (auto simp: handleRotationClick_def Let_def)

theorem rotation_click_sticky_add_witness:
  "\<not> isViewOnly (state (newApp\<lparr>activeRotationFilters := {2}\<rparr>))
   \<and> trackRotation (newApp\<lparr>activeRotationFilters := {2}\<rparr>)
   \<and> activeRotationFilters (newApp\<lparr>activeRotationFilters := {2}\<rparr>) \<noteq> {}
   \<and> currentRotation (handleRotationClick (Some 4) (newApp\<lparr>activeRotationFilters := {2}\<rparr>)) = 4
   \<and> activeRotationFilters (handleRotationClick (Some 4) (newApp\<lparr>activeRotationFilters := {2}\<rparr>))
         = {2, 4}
   \<and> activeRotationFilters (handleRotationClick (Some 4) (newApp\<lparr>activeRotationFilters := {2, 4}\<rparr>))
         = {2, 4}"
proof -
  let ?a = "newApp\<lparr>activeRotationFilters := {2}\<rparr>"
  let ?b = "newApp\<lparr>activeRotationFilters := {2, 4}\<rparr>"
  have ha: "\<not> isViewOnly (state ?a)" "trackRotation ?a" "activeRotationFilters ?a \<noteq> {}"
    by (simp_all add: newApp_def newSessionState_def)
  have hb: "\<not> isViewOnly (state ?b)" "trackRotation ?b" "activeRotationFilters ?b \<noteq> {}"
    by (simp_all add: newApp_def newSessionState_def)
  have fa: "activeRotationFilters ?a = {2}" and fb: "activeRotationFilters ?b = {2, 4}"
    by simp_all
  from rotation_click_sticky_add [OF ha, of 4] fa
  have ra: "currentRotation (handleRotationClick (Some 4) ?a) = 4"
    "activeRotationFilters (handleRotationClick (Some 4) ?a) = {2, 4}"
    by blast+
  from rotation_click_sticky_add [OF hb, of 4] fb
  have rb: "activeRotationFilters (handleRotationClick (Some 4) ?b) = {2, 4}"
    by blast
  from ha ra rb show ?thesis by simp
qed

section \<open>Combining files\<close>

lemma loadAll_length: "loadAll fs = Inr ds \<Longrightarrow> length ds = length fs"
  by (induction fs arbitrary: ds) (auto split: sum.splits)

lemma findModeError_none:
  assumes "sel = Some fm"
  shows "\<forall>fd \<in> set fds. Some (data_mode (snd fd)) = sel \<Longrightarrow> findModeError sel fm fds = None"
  using assms by (induction fds) auto

lemma findModeError_first:
  assumes "sel = Some fm"
  shows "\<exists>fd \<in> set fds. Some (data_mode (snd fd)) \<noteq> sel \<Longrightarrow>
           \<exists>i < length fds. Some (data_mode (snd (fds ! i))) \<noteq> sel
              \<and> (\<forall>j < i. Some (data_mode (snd (fds ! j))) = sel)
              \<and> findModeError sel fm fds
                   = Some (ModeMismatch (file_name (fst (fds ! i))) (data_mode (snd (fds ! i))) sel)"
proof (induction fds)
  case Nil
  then show ?case by simp
next
  case (Cons fd fds)
  obtain f d where fd: "fd = (f, d)" by (cases fd)
  show ?case
  proof (cases "Some (data_mode d) = sel")
    case False
    then have "Some (data_mode (snd ((fd # fds) ! 0))) \<noteq> sel
        \<and> (\<forall>j < 0. Some (data_mode (snd ((fd # fds) ! j))) = sel)
        \<and> findModeError sel fm (fd # fds)
             = Some (ModeMismatch (file_name (fst ((fd # fds) ! 0)))
                       (data_mode (snd ((fd # fds) ! 0))) sel)"
      by (simp add: fd)
    then show ?thesis by blast
  next
    case True
    with Cons.prems fd have "\<exists>fd \<in> set fds. Some (data_mode (snd fd)) \<noteq> sel"
      by auto
    from Cons.IH [OF this] obtain i where i: "i < length fds"
      "Some (data_mode (snd (fds ! i))) \<noteq> sel"
      "\<forall>j < i. Some (data_mode (snd (fds ! j))) = sel"
      "findModeError sel fm fds
         = Some (ModeMismatch (file_name (fst (fds ! i))) (data_mode (snd (fds ! i))) sel)"
      by blast
    have step: "findModeError sel fm (fd # fds) = findModeError sel fm fds"
      using True assms by (auto simp: fd)
    have before: "\<forall>j < Suc i. Some (data_mode (snd ((fd # fds) ! j))) = sel"
      using True i(3) fd by (auto simp: less_Suc_eq_0_disj)
    have "Suc i < length (fd # fds)
        \<and> Some (data_mode (snd ((fd # fds) ! Suc i))) \<noteq> sel
        \<and> (\<forall>j < Suc i. Some (data_mode (snd ((fd # fds) ! j))) = sel)
        \<and> findModeError sel fm (fd # fds)
             = Some (ModeMismatch (file_name (fst ((fd # fds) ! Suc i)))
                       (data_mode (snd ((fd # fds) ! Suc i))) sel)"
      using i step before by simp
    then show ?thesis by blast
  qed
qed

lemma findModeError_zip_first:
  assumes len: "length fs = length ds" and ne: "ds \<noteq> []"
    and bad: "\<exists>d \<in> set ds. Some (data_mode d) \<noteq> sel"
  shows "\<exists>i < length ds. Some (data_mode (ds ! i)) \<noteq> sel
           \<and> (\<forall>j < i. Some (data_mode (ds ! j)) = sel)
           \<and> findModeError sel (data_mode (hd ds)) (zip fs ds)
                = Some (ModeMismatch (file_name (fs ! i)) (data_mode (ds ! i)) sel)"
proof (cases "Some (data_mode (hd ds)) = sel")
  case True
  have "\<exists>fd \<in> set (zip fs ds). Some (data_mode (snd fd)) \<noteq> sel"
    using bad len by (metis set_zip_rightD in_set_impl_in_set_zip2 snd_conv)
  from findModeError_first [OF True [symmetric], OF this]
  obtain i where i: "i < length (zip fs ds)"
    "Some (data_mode (snd (zip fs ds ! i))) \<noteq> sel"
    "\<forall>j < i. Some (data_mode (snd (zip fs ds ! j))) = sel"
    "findModeError sel (data_mode (hd ds)) (zip fs ds)
       = Some (ModeMismatch (file_name (fst (zip fs ds ! i))) (data_mode (snd (zip fs ds ! i))) sel)"
    by blast
  from i len have "i < length ds \<and> Some (data_mode (ds ! i)) \<noteq> sel
           \<and> (\<forall>j < i. Some (data_mode (ds ! j)) = sel)
           \<and> findModeError sel (data_mode (hd ds)) (zip fs ds)
                = Some (ModeMismatch (file_name (fs ! i)) (data_mode (ds ! i)) sel)"
    by simp
  then show ?thesis by blast
next
  case False
  from ne len obtain d ds' f fs' where s: "ds = d # ds'" "fs = f # fs'"
    by (cases ds; cases fs) auto
  with False have "0 < length ds \<and> Some (data_mode (ds ! 0)) \<noteq> sel
           \<and> (\<forall>j < 0. Some (data_mode (ds ! j)) = sel)
           \<and> findModeError sel (data_mode (hd ds)) (zip fs ds)
                = Some (ModeMismatch (file_name (fs ! 0)) (data_mode (ds ! 0)) sel)"
    by simp
  then show ?thesis by blast
qed

text \<open>
  Claim C5. With fewer than two files in the list the handler only asks for at least
  two. With two or more files that all load, if some document's mode differs from the
  selected mode, the handler stops at the first such document with the mode-mismatch
  alert that carries that file's name; the application state is returned as it was, so
  no combined data is stored.
\<close>

theorem combine_mode_mismatch:
  "(length (combineFileList app) < 2 \<longrightarrow>
       handleCombineFiles cfg proceed app = (Some SelectAtLeastTwo, app))
   \<and> (2 \<le> length (combineFileList app) \<and> loadAll (combineFileList app) = Inr docs
        \<and> (\<exists>d \<in> set docs. Some (data_mode d) \<noteq> combineMode app) \<longrightarrow>
       (\<exists>i < length docs.
           Some (data_mode (docs ! i)) \<noteq> combineMode app
           \<and> (\<forall>j < i. Some (data_mode (docs ! j)) = combineMode app)
           \<and> handleCombineFiles cfg proceed app
                = (Some (ModeMismatch (file_name (combineFileList app ! i))
                           (data_mode (docs ! i)) (combineMode app)), app)))"
proof (intro conjI impI)
  assume "length (combineFileList app) < 2"
  then show "handleCombineFiles cfg proceed app = (Some SelectAtLeastTwo, app)"
    by (simp add: handleCombineFiles_def)
next
  assume h: "2 \<le> length (combineFileList app) \<and> loadAll (combineFileList app) = Inr docs
        \<and> (\<exists>d \<in> set docs. Some (data_mode d) \<noteq> combineMode app)"
  then have len: "length (combineFileList app) = length docs"
    using loadAll_length by fastforce
  with h have ne: "docs \<noteq> []" by auto
  from findModeError_zip_first [OF len ne, of "combineMode app"] h
  obtain i where i: "i < length docs" "Some (data_mode (docs ! i)) \<noteq> combineMode app"
    "\<forall>j < i. Some (data_mode (docs ! j)) = combineMode app"
    "findModeError (combineMode app) (data_mode (hd docs)) (zip (combineFileList app) docs)
       = Some (ModeMismatch (file_name (combineFileList app ! i)) (data_mode (docs ! i))
                 (combineMode app))"
    by blast
  have "handleCombineFiles cfg proceed app
          = (Some (ModeMismatch (file_name (combineFileList app ! i))
                     (data_mode (docs ! i)) (combineMode app)), app)"
    using h i(4) by (simp add: handleCombineFiles_def Let_def)
  with i show "\<exists>i < length docs.
           Some (data_mode (docs ! i)) \<noteq> combineMode app
           \<and> (\<forall>j < i. Some (data_mode (docs ! j)) = combineMode app)
           \<and> handleCombineFiles cfg proceed app
                = (Some (ModeMismatch (file_name (combineFileList app ! i))
                           (data_mode (docs ! i)) (combineMode app)), app)"
    by blast
qed

theorem combine_mode_mismatch_witness:
  "length (combineFileList singleFileApp) < 2
   \<and> handleCombineFiles CONFIG True singleFileApp = (Some SelectAtLeastTwo, singleFileApp)
   \<and> 2 \<le> length (combineFileList mismatchApp)
   \<and> loadAll (combineFileList mismatchApp) = Inr [docA, docB]
   \<and> Some (data_mode docA) \<noteq> combineMode mismatchApp
   \<and> handleCombineFiles CONFIG True mismatchApp
        = (Some (ModeMismatch ''a_hmc.json'' ''heatmapCharting'' (Some ''simpleHeatmap'')),
           mismatchApp)
   \<and> combinedData (snd (handleCombineFiles CONFIG True mismatchApp)) = None"
proof -
  have h1: "length (combineFileList singleFileApp) < 2"
    by (simp add: singleFileApp_def)
  have h2: "2 \<le> length (combineFileList mismatchApp)"
    by (simp add: mismatchApp_def)
  have h3: "loadAll (combineFileList mismatchApp) = Inr [docA, docB]"
    by (simp add: mismatchApp_def fileA_def fileB_def)
  have h4: "Some (data_mode docA) \<noteq> combineMode mismatchApp"
    by (simp add: mismatchApp_def docA_def)
  have few: "handleCombineFiles CONFIG True singleFileApp = (Some SelectAtLeastTwo, singleFileApp)"
    using combine_mode_mismatch [of singleFileApp CONFIG True "[]"] h1 by blast
  from combine_mode_mismatch [of mismatchApp CONFIG True "[docA, docB]"] h2 h3 h4
  obtain i where i: "i < length [docA, docB]"
    "\<forall>j < i. Some (data_mode ([docA, docB] ! j)) = combineMode mismatchApp"
    "handleCombineFiles CONFIG True mismatchApp
       = (Some (ModeMismatch (file_name (combineFileList mismatchApp ! i))
                  (data_mode ([docA, docB] ! i)) (combineMode mismatchApp)), mismatchApp)"
    by auto
  have "i = 0"
  proof (rule ccontr)
    assume "i \<noteq> 0"
    then have "0 < i" by simp
    with i(2) have "Some (data_mode ([docA, docB] ! 0)) = combineMode mismatchApp" by blast
    with h4 show False by simp
  qed
  with i(3) have res: "handleCombineFiles CONFIG True mismatchApp
        = (Some (ModeMismatch ''a_hmc.json'' ''heatmapCharting'' (Some ''simpleHeatmap'')),
           mismatchApp)"
    by (simp add: mismatchApp_def fileA_def docA_def)
  have "combinedData mismatchApp = None"
    by (simp add: mismatchApp_def newApp_def)
  with h1 h2 h3 h4 few res show ?thesis by simp
qed

text \<open>
  Claim C6. Whenever \<^verbatim>\<open>handleCombineFiles\<close> stores combined data, its points are the
  points of the loaded documents concatenated in list order, nothing reordered and
  nothing dropped, its mode is the documents' mode, and both of its stacks are empty;
  every other outcome leaves the application state as it was. Combined data is stored
  for every list of two or more documents that all have the selected mode, once the
  point count is within the threshold or the operator has confirmed.
\<close>

theorem combine_concatenates:
  assumes "loadAll (combineFileList app) = Inr docs"
  shows "(handleCombineFiles cfg proceed app = (alert, app') \<longrightarrow>
            app' = app
            \<or> (alert = None
                \<and> app' = app\<lparr>combinedData :=
                             Some \<lparr> combined_mode = data_mode (hd docs),
                                    combined_points = concat (map data_points docs),
                                    combined_undoStack = [],
                                    combined_redoStack = [] \<rparr>\<rparr>))
         \<and> (2 \<le> length docs \<and> (\<forall>d \<in> set docs. Some (data_mode d) = combineMode app)
              \<and> (length (concat (map data_points docs)) \<le> validation_maxPointCount cfg \<or> proceed)
              \<longrightarrow>
            handleCombineFiles cfg proceed app
              = (None, app\<lparr>combinedData :=
                             Some \<lparr> combined_mode = data_mode (hd docs),
                                    combined_points = concat (map data_points docs),
                                    combined_undoStack = [],
                                    combined_redoStack = [] \<rparr>\<rparr>))"
proof (intro conjI impI)
  assume "handleCombineFiles cfg proceed app = (alert, app')"
  then show "app' = app
            \<or> (alert = None
                \<and> app' = app\<lparr>combinedData :=
                             Some \<lparr> combined_mode = data_mode (hd docs),
                                    combined_points = concat (map data_points docs),
                                    combined_undoStack = [],
                                    combined_redoStack = [] \<rparr>\<rparr>)"
    using assms
    by (auto simp: handleCombineFiles_def Let_def split: if_splits option.splits)
next
  assume h: "2 \<le> length docs \<and> (\<forall>d \<in> set docs. Some (data_mode d) = combineMode app)
              \<and> (length (concat (map data_points docs)) \<le> validation_maxPointCount cfg \<or> proceed)"
  have len: "length (combineFileList app) = length docs"
    using loadAll_length [OF assms] by simp
  from h have ne: "docs \<noteq> []" by auto
  then have first: "combineMode app = Some (data_mode (hd docs))"
    using h by (metis hd_in_set)
  have "\<forall>fd \<in> set (zip (combineFileList app) docs). Some (data_mode (snd fd)) = combineMode app"
    using h by (auto dest: set_zip_rightD)
  from findModeError_none [OF first, OF this]
  have none: "findModeError (combineMode app) (data_mode (hd docs))
                (zip (combineFileList app) docs) = None" .
  show "handleCombineFiles cfg proceed app
              = (None, app\<lparr>combinedData :=
                             Some \<lparr> combined_mode = data_mode (hd docs),
                                    combined_points = concat (map data_points docs),
                                    combined_undoStack = [],
                                    combined_redoStack = [] \<rparr>\<rparr>)"
    using h len assms none by (auto simp: handleCombineFiles_def Let_def)
qed

theorem combine_concatenates_witness:
  "loadAll (combineFileList matchingApp) = Inr [docB, docC]
   \<and> 2 \<le> length [docB, docC]
   \<and> handleCombineFiles CONFIG False matchingApp
        = (None, matchingApp\<lparr>combinedData :=
                   Some \<lparr> combined_mode = ''simpleHeatmap'',
                          combined_points = [simplePoint 1 1 None, simplePoint 2 2 None,
                                             simplePoint 2 2 None, simplePoint 3 3 None],
                          combined_undoStack = [],
                          combined_redoStack = [] \<rparr>\<rparr>)"
proof -
  have h1: "loadAll (combineFileList matchingApp) = Inr [docB, docC]"
    by (simp add: matchingApp_def fileB_def fileC_def)
  have h2: "2 \<le> length [docB, docC]"
    by simp
  have h3: "\<forall>d \<in> set [docB, docC]. Some (data_mode d) = combineMode matchingApp"
    by (simp add: matchingApp_def docB_def docC_def)
  have h4: "length (concat (map data_points [docB, docC])) \<le> validation_maxPointCount CONFIG"
    by (simp add: docB_def docC_def CONFIG_def)
  from combine_concatenates [OF h1, of CONFIG False] h2 h3 h4
  have "handleCombineFiles CONFIG False matchingApp
          = (None, matchingApp\<lparr>combinedData :=
                     Some \<lparr> combined_mode = data_mode (hd [docB, docC]),
                            combined_points = concat (map data_points [docB, docC]),
                            combined_undoStack = [],
                            combined_redoStack = [] \<rparr>\<rparr>)"
    by blast
  then have "handleCombineFiles CONFIG False matchingApp
        = (None, matchingApp\<lparr>combinedData :=
                   Some \<lparr> combined_mode = ''simpleHeatmap'',
                          combined_points = [simplePoint 1 1 None, simplePoint 2 2 None,
                                             simplePoint 2 2 None, simplePoint 3 3 None],
                          combined_undoStack = [],
                          combined_redoStack = [] \<rparr>\<rparr>)"
    by (simp add: docB_def docC_def)
  with h1 h2 show ?thesis by simp
qed


section \<open>Validation of points\<close>

lemma validatePoint_rejects:
  assumes "rotationOutOfRange cfg point"
  shows "\<exists>e. validatePoint cfg point i = Inl e"
  using assms
  by (auto simp: validatePoint_def rotationOutOfRange_def Let_def
      split: option.splits json.splits if_splits)

lemma validatePoint_accepts:
  assumes "isObjectValue point"
    and "numberOf (getProp point ''x'') \<noteq> None" and "numberOf (getProp point ''y'') \<noteq> None"
    and "\<not> rotationOutOfRange cfg point"
  shows "\<exists>w. validatePoint cfg point i = Inr w"
  using assms
  by (auto simp: validatePoint_def rotationOutOfRange_def Let_def
      split: option.splits json.splits if_splits)

lemma validatePoint_rotation_error:
  "validatePoint cfg point i = Inl (PointInvalidRotation i) \<longleftrightarrow>
     isObjectValue point \<and> numberOf (getProp point ''x'') \<noteq> None
       \<and> numberOf (getProp point ''y'') \<noteq> None \<and> rotationOutOfRange cfg point"
  by (auto simp: validatePoint_def rotationOutOfRange_def Let_def
      split: option.splits json.splits if_splits)

lemma validatePoints_rejects:
  assumes "point \<in> set pts" and "rotationOutOfRange cfg point"
  shows "\<exists>e. validatePoints cfg pts k = Inl e"
  using assms(1)
proof (induction pts arbitrary: k)
  case Nil
  then show ?case by simp
next
  case (Cons q pts)
  show ?case
  proof (cases "validatePoint cfg q k")
    case (Inl e)
    then show ?thesis by simp
  next
    case (Inr w)
    with validatePoint_rejects [OF assms(2), of k] have "q \<noteq> point" by auto
    with Cons.prems have "point \<in> set pts" by simp
    from Cons.IH [OF this, of "Suc k"] Inr show ?thesis by simp
  qed
qed

lemma validateSessionData_rejects:
  assumes "getProp data ''points'' = Some (JArr pts)"
    and "point \<in> set pts" and "rotationOutOfRange cfg point"
  shows "\<exists>e. validateSessionData cfg data = Inl e"
proof -
  from validatePoints_rejects [OF assms(2,3), of 0]
  obtain e where "validatePoints cfg pts 0 = Inl e" by blast
  with assms(1) show ?thesis
    by (simp add: validateSessionData_def)
qed

text \<open>
  Claim C7, as the code has it. Validation rejects every point whose rotation is there,
  is not \<^verbatim>\<open>null\<close>, and is not a number between the minimal and the maximal rotation
  (1 and 6 as shipped): \<^verbatim>\<open>validatePoint\<close> throws for it, with the rotation error when
  the point is an object with numeric coordinates, and \<^verbatim>\<open>validateSessionData\<close> throws
  for a document whose points hold it. A point with numeric coordinates whose rotation
  is missing, \<^verbatim>\<open>null\<close>, or any number in the range, whole or not, is accepted.
\<close>

theorem validation_rotation_range:
  "(rotationOutOfRange cfg point \<longrightarrow> (\<exists>e. validatePoint cfg point i = Inl e))
   \<and> (validatePoint cfg point i = Inl (PointInvalidRotation i) \<longleftrightarrow>
        isObjectValue point \<and> numberOf (getProp point ''x'') \<noteq> None
          \<and> numberOf (getProp point ''y'') \<noteq> None \<and> rotationOutOfRange cfg point)
   \<and> (getProp data ''points'' = Some (JArr pts) \<and> point \<in> set pts
        \<and> rotationOutOfRange cfg point \<longrightarrow> (\<exists>e. validateSessionData cfg data = Inl e))
   \<and> (isObjectValue point \<and> numberOf (getProp point ''x'') \<noteq> None
        \<and> numberOf (getProp point ''y'') \<noteq> None
        \<and> (getProp point ''rotation'' = None \<or> getProp point ''rotation'' = Some JNull
            \<or> (\<exists>r. getProp point ''rotation'' = Some (JNum r)
                  \<and> validation_minRotation cfg \<le> r \<and> r \<le> validation_maxRotation cfg))
        \<longrightarrow> (\<exists>w. validatePoint cfg point i = Inr w))"
proof (intro conjI impI)
  assume "rotationOutOfRange cfg point"
  then show "\<exists>e. validatePoint cfg point i = Inl e"
    by (rule validatePoint_rejects)
next
  show "validatePoint cfg point i = Inl (PointInvalidRotation i) \<longleftrightarrow>
        isObjectValue point \<and> numberOf (getProp point ''x'') \<noteq> None
          \<and> numberOf (getProp point ''y'') \<noteq> None \<and> rotationOutOfRange cfg point"
    by (rule validatePoint_rotation_error)
next
  assume "getProp data ''points'' = Some (JArr pts) \<and> point \<in> set pts
        \<and> rotationOutOfRange cfg point"
  then show "\<exists>e. validateSessionData cfg data = Inl e"
    using validateSessionData_rejects by blast
next
  assume h: "isObjectValue point \<and> numberOf (getProp point ''x'') \<noteq> None
        \<and> numberOf (getProp point ''y'') \<noteq> None
        \<and> (getProp point ''rotation'' = None \<or> getProp point ''rotation'' = Some JNull
            \<or> (\<exists>r. getProp point ''rotation'' = Some (JNum r)
                  \<and> validation_minRotation cfg \<le> r \<and> r \<le> validation_maxRotation cfg))"
  then have "\<not> rotationOutOfRange cfg point"
    by (auto simp: rotationOutOfRange_def)
  with h show "\<exists>w. validatePoint cfg point i = Inr w"
    using validatePoint_accepts by blast
qed

theorem validation_rotation_range_witness:
  "rotationOutOfRange CONFIG (jsonPoint 10 20 (JNum 7))
   \<and> validatePoint CONFIG (jsonPoint 10 20 (JNum 7)) 0 = Inl (PointInvalidRotation 0)
   \<and> rotationOutOfRange CONFIG (jsonPoint 10 20 (JStr ''3''))
   \<and> validatePoint CONFIG (jsonPoint 10 20 (JStr ''3'')) 0 = Inl (PointInvalidRotation 0)
   \<and> (\<exists>e. validateSessionData CONFIG
              (jsonDocument [jsonPoint 1 1 (JNum 3), jsonPoint 10 20 (JNum 7)]) = Inl e)
   \<and> (\<exists>w. validatePoint CONFIG (jsonPoint 10 20 JNull) 0 = Inr w)
   \<and> (\<exists>w. validatePoint CONFIG (JObj [(''x'', JNum 10), (''y'', JNum 20)]) 0 = Inr w)
   \<and> (\<exists>w. validatePoint CONFIG (jsonPoint 10 20 (JNum 6)) 0 = Inr w)"
proof -
  have bad7: "rotationOutOfRange CONFIG (jsonPoint 10 20 (JNum 7))"
    and badS: "rotationOutOfRange CONFIG (jsonPoint 10 20 (JStr ''3''))"
    by (simp_all add: rotationOutOfRange_def jsonPoint_def CONFIG_def)
  have obj: "isObjectValue (jsonPoint 10 20 r)"
    "numberOf (getProp (jsonPoint 10 20 r) ''x'') \<noteq> None"
    "numberOf (getProp (jsonPoint 10 20 r) ''y'') \<noteq> None" for r
    by (simp_all add: jsonPoint_def)
  have e7: "validatePoint CONFIG (jsonPoint 10 20 (JNum 7)) 0 = Inl (PointInvalidRotation 0)"
    using validation_rotation_range [of CONFIG "jsonPoint 10 20 (JNum 7)" 0] bad7 obj by blast
  have eS: "validatePoint CONFIG (jsonPoint 10 20 (JStr ''3'')) 0 = Inl (PointInvalidRotation 0)"
    using validation_rotation_range [of CONFIG "jsonPoint 10 20 (JStr ''3'')" 0] badS obj by blast
  have doc: "\<exists>e. validateSessionData CONFIG
              (jsonDocument [jsonPoint 1 1 (JNum 3), jsonPoint 10 20 (JNum 7)]) = Inl e"
    using validation_rotation_range [of CONFIG "jsonPoint 10 20 (JNum 7)" 0
        "jsonDocument [jsonPoint 1 1 (JNum 3), jsonPoint 10 20 (JNum 7)]"
        "[jsonPoint 1 1 (JNum 3), jsonPoint 10 20 (JNum 7)]"] bad7
    by (simp add: jsonDocument_def)
  have null: "\<exists>w. validatePoint CONFIG (jsonPoint 10 20 JNull) 0 = Inr w"
    using validation_rotation_range [of CONFIG "jsonPoint 10 20 JNull" 0] obj
    by (simp add: jsonPoint_def)
  have absent: "\<exists>w. validatePoint CONFIG (JObj [(''x'', JNum 10), (''y'', JNum 20)]) 0 = Inr w"
    using validation_rotation_range [of CONFIG "JObj [(''x'', JNum 10), (''y'', JNum 20)]" 0]
    by simp
  have six: "\<exists>w. validatePoint CONFIG (jsonPoint 10 20 (JNum 6)) 0 = Inr w"
    using validation_rotation_range [of CONFIG "jsonPoint 10 20 (JNum 6)" 0] obj
    by (simp add: jsonPoint_def CONFIG_def)
  from bad7 badS e7 eS doc null absent six show ?thesis by simp
qed

text \<open>
  The range check does not ask for a whole number: a point with rotation \<open>2.5\<close> passes
  \<^verbatim>\<open>validatePoint\<close> without a warning, and a document holding it passes
  \<^verbatim>\<open>validateSessionData\<close>.
\<close>

theorem validation_accepts_fractional_rotation:
  "validatePoint CONFIG (jsonPoint 10 20 (JNum (5 / 2))) 0 = Inr False
   \<and> validateSessionData CONFIG (jsonDocument [jsonPoint 10 20 (JNum (5 / 2))]) = Inr ()
   \<and> getProp (jsonPoint 10 20 (JNum (5 / 2))) ''rotation'' = Some (JNum (5 / 2))
   \<and> (5 / 2 :: rat) \<notin> \<int>"
proof -
  have a: "validatePoint CONFIG (jsonPoint 10 20 (JNum (5 / 2))) 0 = Inr False"
    by (simp add: validatePoint_def jsonPoint_def CONFIG_def)
  have b: "validateSessionData CONFIG (jsonDocument [jsonPoint 10 20 (JNum (5 / 2))]) = Inr ()"
  proof -
    have modes: "validation_validModes CONFIG = [''simpleHeatmap'', ''heatmapCharting'']"
      by (simp add: CONFIG_def)
    show ?thesis
      by (simp add: validateSessionData_def jsonDocument_def a modes)
  qed
  have c: "getProp (jsonPoint 10 20 (JNum (5 / 2))) ''rotation'' = Some (JNum (5 / 2))"
    by (simp add: jsonPoint_def)
  have d: "(5 / 2 :: rat) \<notin> \<int>"
  proof
    assume "(5 / 2 :: rat) \<in> \<int>"
    then obtain k :: int where k: "(5 / 2 :: rat) = of_int k" by (auto elim: Ints_cases)
    then have "(of_int (2 * k) :: rat) = of_int 5" by simp
    then have "2 * k = 5" by (simp only: of_int_eq_iff)
    then show False by presburger
  qed
  from a b c d show ?thesis by simp
qed


section \<open>Migration on load\<close>

lemma migratePoint_again:
  "migratePoint (fst (migratePoint p)) = (fst (migratePoint p), 0, 0)"
  by (simp add: migratePoint_def Let_def split: if_splits)

lemma migratePoints_again:
  "migratePoints (fst (migratePoints ps)) = (fst (migratePoints ps), 0, 0)"
proof (induction ps)
  case Nil
  then show ?case by simp
next
  case (Cons p ps)
  obtain p' j t where p: "migratePoint p = (p', j, t)"
    by (cases "migratePoint p") auto
  obtain ps' js ts where ps: "migratePoints ps = (ps', js, ts)"
    by (cases "migratePoints ps") auto
  from migratePoint_again [of p] p have p2: "migratePoint p' = (p', 0, 0)" by simp
  from Cons.IH ps have ps2: "migratePoints ps' = (ps', 0, 0)" by simp
  show ?case by (simp add: p ps p2 ps2)
qed

lemma migrateStack_again:
  "migrateStack (fst (migrateStack as)) = (fst (migrateStack as), 0, 0)"
proof (induction as rule: migrateStack.induct)
  case 1
  then show ?case by simp
next
  case (2 p as)
  obtain p' j t where p: "migratePoint p = (p', j, t)"
    by (cases "migratePoint p") auto
  obtain as' js ts where as: "migrateStack as = (as', js, ts)"
    by (cases "migrateStack as") auto
  from migratePoint_again [of p] p have p2: "migratePoint p' = (p', 0, 0)" by simp
  from "2.IH" p as have as2: "migrateStack as' = (as', 0, 0)" by simp
  show ?case by (simp add: p as p2 as2)
next
  case (3 ps as)
  obtain ps' j t where ps: "migratePoints ps = (ps', j, t)"
    by (cases "migratePoints ps") auto
  obtain as' js ts where as: "migrateStack as = (as', js, ts)"
    by (cases "migrateStack as") auto
  from migratePoints_again [of ps] ps have ps2: "migratePoints ps' = (ps', 0, 0)" by simp
  from "3.IH" ps as have as2: "migrateStack as' = (as', 0, 0)" by simp
  show ?case by (simp add: ps as ps2 as2)
qed

lemma loadMigration_fields:
  "points (fst (loadMigration data s)) = fst (migratePoints (data_points data))"
  "undoStack (fst (loadMigration data s))
     = fst (migrateStack (case data_undoStack data of None \<Rightarrow> [] | Some u \<Rightarrow> u))"
  "redoStack (fst (loadMigration data s))
     = fst (migrateStack (case data_redoStack data of None \<Rightarrow> [] | Some r \<Rightarrow> r))"
  "migrationInfo (fst (loadMigration data s)) = migrationInfo s"
  "isViewOnly (fst (loadMigration data s)) = isViewOnly s"
  by (simp_all add: loadMigration_def Let_def split: prod.splits)

lemma load_throws:
  "load data viewOnly s = (Inl (ReferenceError ''ults is not defined''), fst (loadMigration data s))"
  by (simp add: load_def split: prod.splits)

lemma loadMigration_again:
  assumes "loadMigration data s = (s1, c1)"
  shows "loadMigration (export s1) s2
           = (s2\<lparr>name := (if name s1 = [] then ''Loaded Session'' else name s1),
                  mode := mode s1, points := points s1,
                  undoStack := undoStack s1, redoStack := redoStack s1\<rparr>,
              \<lparr> pointsMigrated = 0, teamMigrated = 0,
                undoResults_jersey = 0, undoResults_team = 0,
                redoResults_jersey = 0, redoResults_team = 0,
                currentJersey = 0, currentTeam = 0 \<rparr>)"
proof -
  from assms have s1: "s1 = fst (loadMigration data s)" by simp
  have p: "migratePoints (points s1) = (points s1, 0, 0)"
    unfolding s1 loadMigration_fields by (rule migratePoints_again)
  have u: "migrateStack (undoStack s1) = (undoStack s1, 0, 0)"
    unfolding s1 loadMigration_fields by (rule migrateStack_again)
  have r: "migrateStack (redoStack s1) = (redoStack s1, 0, 0)"
    unfolding s1 loadMigration_fields by (rule migrateStack_again)
  show ?thesis
    by (simp add: loadMigration_def export_def p u r)
qed

text \<open>
  Claim C4. Let a first run of \<^verbatim>\<open>load\<close> on any document leave the session \<open>s1\<close>.
  A second run on the document exported from \<open>s1\<close> counts no added
  \<^verbatim>\<open>jerseyNumber\<close> and no added \<^verbatim>\<open>team\<close> field, neither in the current points nor in
  the undo nor in the redo payloads, and leaves points and stacks as the first run made
  them. No run writes a migration report: \<^verbatim>\<open>load\<close> ends in the \<^verbatim>\<open>ReferenceError\<close>
  before the report is built, so \<^verbatim>\<open>migrationInfo\<close> keeps its value, \<^verbatim>\<open>null\<close> in a new
  \<^verbatim>\<open>SessionState\<close>.
\<close>

theorem migration_idempotent:
  assumes "loadMigration data s = (s1, c1)"
  shows "snd (loadMigration (export s1) s2)
           = \<lparr> pointsMigrated = 0, teamMigrated = 0,
               undoResults_jersey = 0, undoResults_team = 0,
               redoResults_jersey = 0, redoResults_team = 0,
               currentJersey = 0, currentTeam = 0 \<rparr>
         \<and> points (fst (loadMigration (export s1) s2)) = points s1
         \<and> undoStack (fst (loadMigration (export s1) s2)) = undoStack s1
         \<and> redoStack (fst (loadMigration (export s1) s2)) = redoStack s1
         \<and> load (export s1) viewOnly s2
              = (Inl (ReferenceError ''ults is not defined''), fst (loadMigration (export s1) s2))
         \<and> migrationInfo (snd (load (export s1) viewOnly s2)) = migrationInfo s2
         \<and> migrationInfo (snd (load (export s1) viewOnly newSessionState)) = None"
proof -
  note again = loadMigration_again [OF assms]
  have a: "snd (loadMigration (export s1) s2)
           = \<lparr> pointsMigrated = 0, teamMigrated = 0,
               undoResults_jersey = 0, undoResults_team = 0,
               redoResults_jersey = 0, redoResults_team = 0,
               currentJersey = 0, currentTeam = 0 \<rparr>"
    by (simp add: again)
  have b: "points (fst (loadMigration (export s1) s2)) = points s1"
    "undoStack (fst (loadMigration (export s1) s2)) = undoStack s1"
    "redoStack (fst (loadMigration (export s1) s2)) = redoStack s1"
    by (simp_all add: again)
  have c: "load (export s1) viewOnly s2
              = (Inl (ReferenceError ''ults is not defined''), fst (loadMigration (export s1) s2))"
    by (rule load_throws)
  have d: "migrationInfo (snd (load (export s1) viewOnly s2)) = migrationInfo s2"
    by (simp add: load_throws loadMigration_fields)
  have e: "migrationInfo (snd (load (export s1) viewOnly newSessionState)) = None"
    by (simp add: load_throws loadMigration_fields newSessionState_def)
  from a b c d e show ?thesis by (simp only:)
qed

lemma legacyDocument_first_run:
  "snd (loadMigration legacyDocument newSessionState)
     = \<lparr> pointsMigrated = 4, teamMigrated = 4,
         undoResults_jersey = 2, undoResults_team = 2,
         redoResults_jersey = 1, redoResults_team = 1,
         currentJersey = 1, currentTeam = 1 \<rparr>"
  by (simp add: loadMigration_def legacyDocument_def migratePoint_def legacyLinePoint_def
      simplePoint_def Let_def)

theorem migration_idempotent_witness:
  "snd (loadMigration legacyDocument newSessionState)
     = \<lparr> pointsMigrated = 4, teamMigrated = 4,
         undoResults_jersey = 2, undoResults_team = 2,
         redoResults_jersey = 1, redoResults_team = 1,
         currentJersey = 1, currentTeam = 1 \<rparr>
   \<and> snd (loadMigration (export (fst (loadMigration legacyDocument newSessionState)))
           (fst (loadMigration legacyDocument newSessionState)))
       = \<lparr> pointsMigrated = 0, teamMigrated = 0,
           undoResults_jersey = 0, undoResults_team = 0,
           redoResults_jersey = 0, redoResults_team = 0,
           currentJersey = 0, currentTeam = 0 \<rparr>
   \<and> migrationInfo (snd (load (export (fst (loadMigration legacyDocument newSessionState))) False
                            (fst (loadMigration legacyDocument newSessionState)))) = None"
proof -
  let ?s1 = "fst (loadMigration legacyDocument newSessionState)"
  have h: "loadMigration legacyDocument newSessionState
             = (?s1, snd (loadMigration legacyDocument newSessionState))"
    by simp
  have m: "migrationInfo ?s1 = None"
    by (simp add: loadMigration_fields newSessionState_def)
  from migration_idempotent [OF h, of ?s1 False]
  have z: "snd (loadMigration (export ?s1) ?s1)
       = \<lparr> pointsMigrated = 0, teamMigrated = 0,
           undoResults_jersey = 0, undoResults_team = 0,
           redoResults_jersey = 0, redoResults_team = 0,
           currentJersey = 0, currentTeam = 0 \<rparr>"
    and i: "migrationInfo (snd (load (export ?s1) False ?s1)) = migrationInfo ?s1"
    by blast+
  from i m have n: "migrationInfo (snd (load (export ?s1) False ?s1)) = None"
    by (simp only:)
  from legacyDocument_first_run z n show ?thesis
    by (intro conjI)
qed


end
